theory Spec2Isabelle
  imports Complex_Main
begin

section \<open>The JavaScript runtime the server relies on\<close>

text \<open>
  The export endpoint of \<^verbatim>\<open>server.js\<close> is embedded as pure functions. The repository
  has a second copy of the server; its filter builder and command are the same, and only
  the texts of its replies differ. JavaScript numbers
  are modelled as exact rationals: a request carries finite decimals, and the rounding of
  IEEE doubles is outside the model. A field that is \<^verbatim>\<open>null\<close>, \<^verbatim>\<open>undefined\<close> or absent is
  \<open>None\<close>. Strings are lists of 8-bit characters; the three characters the escaper looks
  for are ASCII, so the encoding of the others does not matter.
\<close>

abbreviation bslash :: char where "bslash \<equiv> CHR 0x5C"
abbreviation squote :: char where "squote \<equiv> CHR 0x27"
abbreviation dquote :: char where "dquote \<equiv> CHR 0x22"
abbreviation colon :: char where "colon \<equiv> CHR 0x3A"

subsection \<open>Strings\<close>

text \<open>\<^verbatim>\<open>s.replace(/c/g, r)\<close> for a pattern that is one literal character.\<close>

primrec replaceAll :: "char \<Rightarrow> string \<Rightarrow> string \<Rightarrow> string" where
  "replaceAll c r [] = []"
| "replaceAll c r (a # s) = (if a = c then r else [a]) @ replaceAll c r s"

text \<open>\<^verbatim>\<open>s.replace("c", r)\<close>: a string pattern replaces the first occurrence only.\<close>

primrec replaceFirst :: "char \<Rightarrow> string \<Rightarrow> string \<Rightarrow> string" where
  "replaceFirst c r [] = []"
| "replaceFirst c r (a # s) = (if a = c then r @ s else a # replaceFirst c r s)"

text \<open>\<^verbatim>\<open>s.padStart(n, c)\<close> with a one-character filler.\<close>

definition padStart :: "nat \<Rightarrow> char \<Rightarrow> string \<Rightarrow> string" where
  "padStart n c s = replicate (n - length s) c @ s"

text \<open>\<^verbatim>\<open>arr.join(sep)\<close>.\<close>

fun join :: "string \<Rightarrow> string list \<Rightarrow> string" where
  "join sep [] = []"
| "join sep [s] = s"
| "join sep (s # t # ss) = s @ sep @ join sep (t # ss)"

text \<open>\<^verbatim>\<open>s.split(c)\<close> with a one-character separator: never the empty array.\<close>

primrec split_on :: "char \<Rightarrow> string \<Rightarrow> string list" where
  "split_on c [] = [[]]"
| "split_on c (a # s) =
     (if a = c then [] # split_on c s
      else (case split_on c s of [] \<Rightarrow> [[a]] | p # ps \<Rightarrow> (a # p) # ps))"

text \<open>\<^verbatim>\<open>arr[i]\<close>: \<^verbatim>\<open>undefined\<close> past the end.\<close>

primrec index_opt :: "'a list \<Rightarrow> nat \<Rightarrow> 'a option" where
  "index_opt [] i = None"
| "index_opt (a # as) i = (case i of 0 \<Rightarrow> Some a | Suc j \<Rightarrow> index_opt as j)"

text \<open>\<^verbatim>\<open>s.startsWith(p)\<close>.\<close>

definition startsWith :: "string \<Rightarrow> string \<Rightarrow> bool" where
  "startsWith p s = (take (length p) s = p)"

subsection \<open>Numbers and their text\<close>

definition digit_char :: "nat \<Rightarrow> char" where
  "digit_char d = ''0123456789'' ! (d mod 10)"

fun dec :: "nat \<Rightarrow> string" where
  "dec n = (if n < 10 then [digit_char n] else dec (n div 10) @ [digit_char n])"

declare dec.simps [simp del]

text \<open>
  The digits after the decimal point of a value in \<open>[0, 1)\<close>, until the remainder is zero;
  the fuel bounds the expansion of a value that is no finite decimal.
\<close>

primrec frac_digits :: "nat \<Rightarrow> rat \<Rightarrow> string" where
  "frac_digits 0 r = []"
| "frac_digits (Suc k) r =
     (if r = 0 then []
      else digit_char (nat \<lfloor>10 * r\<rfloor>) # frac_digits k (10 * r - of_int \<lfloor>10 * r\<rfloor>))"

text \<open>
  \<^verbatim>\<open>String(v)\<close> and \<^verbatim>\<open>`${v}`\<close> for a number: the runtime prints the shortest decimal that
  denotes the value, which for the finite decimals of a request is the decimal itself.
  Exponent notation (magnitudes below \<open>1e-6\<close> or from \<open>1e21\<close>) is not modelled.
\<close>

definition num_str :: "rat \<Rightarrow> string" where
  "num_str v =
     (let a = \<bar>v\<bar>; fr = a - of_int \<lfloor>a\<rfloor>
      in (if v < 0 then ''-'' else []) @ dec (nat \<lfloor>a\<rfloor>) @
         (if fr = 0 then [] else ''.'' @ frac_digits 20 fr))"

text \<open>
  \<^verbatim>\<open>v.toFixed(f)\<close> (ECMA-262, Number.prototype.toFixed): the sign is split off, \<open>n\<close> is the
  integer nearest to \<open>\<bar>v\<bar> * 10^f\<close> (the larger one on a tie), its digits are padded with
  zeros to \<open>f + 1\<close> places and the point goes before the last \<open>f\<close>. From \<open>1e21\<close> on the
  runtime prints \<^verbatim>\<open>String(v)\<close> instead.
\<close>

definition toFixed :: "nat \<Rightarrow> rat \<Rightarrow> string" where
  "toFixed f v =
     (if 10 ^ 21 \<le> \<bar>v\<bar> then num_str v
      else let n = nat \<lfloor>\<bar>v\<bar> * 10 ^ f + 1 / 2\<rfloor>;
               m = padStart (f + 1) (CHR ''0'') (dec n);
               k = length m - f
           in (if v < 0 then ''-'' else []) @ take k m @
              (if f = 0 then [] else ''.'' @ drop k m))"

text \<open>\<^verbatim>\<open>a % b\<close>: the remainder has the sign of the dividend.\<close>

definition js_trunc :: "rat \<Rightarrow> int" where
  "js_trunc v = (if 0 \<le> v then \<lfloor>v\<rfloor> else \<lceil>v\<rceil>)"

definition js_rem :: "rat \<Rightarrow> rat \<Rightarrow> rat" where
  "js_rem a b = a - b * of_int (js_trunc (a / b))"

text \<open>
  \<^verbatim>\<open>Number(s)\<close> on a string: a run of decimal digits is its value, the empty string is 0.
  The other numeric literals of the language (sign, fraction, exponent, radix prefix,
  surrounding white space, \<^verbatim>\<open>Infinity\<close>) occur in no aspect ratio of the data model and
  are not distinguished from the strings that are no number.
\<close>

datatype jsnum = NaN | Fin rat

definition is_digit :: "char \<Rightarrow> bool" where
  "is_digit c = (c \<in> set ''0123456789'')"

definition digit_val :: "char \<Rightarrow> nat" where
  "digit_val c = of_char c - 48"

definition dec_val :: "string \<Rightarrow> nat" where
  "dec_val s = foldl (\<lambda>n c. 10 * n + digit_val c) 0 s"

definition js_Number :: "string \<Rightarrow> jsnum" where
  "js_Number s = (if list_all is_digit s then Fin (of_nat (dec_val s)) else NaN)"

text \<open>\<^verbatim>\<open>`${v}`\<close> for a value that is a number or \<^verbatim>\<open>undefined\<close>.\<close>

fun template_num :: "jsnum option \<Rightarrow> string" where
  "template_num None = ''undefined''"
| "template_num (Some NaN) = ''NaN''"
| "template_num (Some (Fin v)) = num_str v"

section \<open>Helpers of server.js\<close>

definition secondsToFFmpeg :: "rat \<Rightarrow> string" where
  "secondsToFFmpeg s =
     (let h = \<lfloor>s / 3600\<rfloor>;
          m = \<lfloor>js_rem s 3600 / 60\<rfloor>;
          sec = toFixed 3 (js_rem s 60)
      in padStart 2 (CHR ''0'') (num_str (of_int h)) @ '':'' @
         padStart 2 (CHR ''0'') (num_str (of_int m)) @ '':'' @
         padStart 6 (CHR ''0'') sec)"

section \<open>The data of a request\<close>

text \<open>
  \<^verbatim>\<open>TextOverlay\<close> and \<^verbatim>\<open>ClipEdits\<close> of \<^verbatim>\<open>storage.ts\<close>, as the JSON body of a request
  carries them: every field may be missing. The crop box and the trim offsets are part
  of the edits, and \<^verbatim>\<open>server.js\<close> never reads them. A field that is present has the type
  that \<^verbatim>\<open>storage.ts\<close> declares for it: a number where a number is declared, a string where
  a string is. The handler itself checks no type, so a body with a string in a numeric
  field, or with a value that is no object in the list of overlays, is outside this
  model, and every property below is about requests of the declared types.
\<close>

record TextOverlay =
  o_id :: "string option"
  o_text :: "string option"
  o_x :: "rat option"
  o_y :: "rat option"
  o_fontSize :: "rat option"
  o_color :: "string option"
  o_startSec :: "rat option"
  o_endSec :: "rat option"
  o_bold :: "bool option"

record ClipEdits =
  cropX :: "rat option"
  cropY :: "rat option"
  cropW :: "rat option"
  cropH :: "rat option"
  aspectRatio :: "string option"
  textOverlays :: "TextOverlay list option"
  brightness :: "rat option"
  contrast :: "rat option"
  saturation :: "rat option"
  speed :: "rat option"
  trimStart :: "rat option"
  trimEnd :: "rat option"

text \<open>\<^verbatim>\<open>{}\<close>, which \<^verbatim>\<open>edits || {}\<close> puts in the place of missing edits.\<close>

definition no_edits :: ClipEdits where
  "no_edits = \<lparr>cropX = None, cropY = None, cropW = None, cropH = None,
     aspectRatio = None, textOverlays = None, brightness = None, contrast = None,
     saturation = None, speed = None, trimStart = None, trimEnd = None\<rparr>"

record Moment =
  startTime :: rat
  endTime :: rat

record request =
  sourceFile :: "string option"
  clip :: "Moment option"
  edits :: "ClipEdits option"

section \<open>buildFFmpegFilters\<close>

datatype error = TypeError

text \<open>The two crop expressions, from the texts of \<^verbatim>\<open>rw\<close> and \<^verbatim>\<open>rh\<close>.\<close>

definition cropW_text :: "string \<Rightarrow> string \<Rightarrow> string" where
  "cropW_text rw rh =
     ''if(gt(iw/ih'' @ [bslash] @ '','' @ rw @ ''/'' @ rh @ '')'' @ [bslash] @ '','' @
     ''trunc(ih*'' @ rw @ ''/'' @ rh @ ''/2)*2'' @ [bslash] @ '','' @
     ''iw)''"

definition cropH_text :: "string \<Rightarrow> string \<Rightarrow> string" where
  "cropH_text rw rh =
     ''if(gt(iw/ih'' @ [bslash] @ '','' @ rw @ ''/'' @ rh @ '')'' @ [bslash] @ '','' @
     ''ih'' @ [bslash] @ '','' @
     ''trunc(iw*'' @ rh @ ''/'' @ rw @ ''/2)*2)''"

definition crop_filter :: "string \<Rightarrow> string" where
  "crop_filter a =
     (let parts = map js_Number (split_on colon a);
          rw = template_num (index_opt parts 0);
          rh = template_num (index_opt parts 1)
      in ''crop='' @ cropW_text rw rh @ '':'' @ cropH_text rw rh @
         '':(iw-out_w)/2:(ih-out_h)/2'')"

text \<open>Step 1: \<^verbatim>\<open>edits.aspectRatio && edits.aspectRatio !== "original"\<close>.\<close>

definition push_crop :: "ClipEdits \<Rightarrow> string list \<Rightarrow> string list" where
  "push_crop e filters =
     (case aspectRatio e of
        None \<Rightarrow> filters
      | Some a \<Rightarrow> if a \<noteq> [] \<and> a \<noteq> ''original'' then filters @ [crop_filter a] else filters)"

text \<open>Step 2: the \<^verbatim>\<open>eq\<close> array and the entry made of it.\<close>

definition eq_parts :: "ClipEdits \<Rightarrow> string list" where
  "eq_parts e =
     (let eq = [];
          eq = (case brightness e of
                  None \<Rightarrow> eq
                | Some b \<Rightarrow> if b \<noteq> 0 then eq @ [''brightness='' @ num_str b] else eq);
          eq = (case contrast e of
                  None \<Rightarrow> eq
                | Some c \<Rightarrow> if c \<noteq> 0 then eq @ [''contrast='' @ toFixed 4 (1 + c)] else eq);
          eq = (case saturation e of
                  None \<Rightarrow> eq
                | Some s \<Rightarrow> if s \<noteq> 0 then eq @ [''saturation='' @ toFixed 4 (1 + s)] else eq)
      in eq)"

definition push_eq :: "ClipEdits \<Rightarrow> string list \<Rightarrow> string list" where
  "push_eq e filters =
     (let eq = eq_parts e
      in if eq \<noteq> [] then filters @ [''eq='' @ join '':'' eq] else filters)"

text \<open>Step 3: \<^verbatim>\<open>edits.speed && edits.speed !== 1\<close>; the number 0 is falsy.\<close>

definition push_speed :: "ClipEdits \<Rightarrow> string list \<Rightarrow> string list" where
  "push_speed e filters =
     (case speed e of
        None \<Rightarrow> filters
      | Some s \<Rightarrow>
          if s \<noteq> 0 \<and> s \<noteq> 1 then filters @ [''setpts='' @ toFixed 6 (1 / s) @ ''*PTS'']
          else filters)"

text \<open>Step 4: one \<^verbatim>\<open>drawtext\<close> entry per overlay.\<close>

definition escapeText :: "string \<Rightarrow> string" where
  "escapeText t =
     replaceAll colon [bslash, colon]
       (replaceAll squote [bslash, squote]
          (replaceAll bslash [bslash, bslash] t))"

definition overlay_color :: "TextOverlay \<Rightarrow> string" where
  "overlay_color t =
     replaceFirst (CHR ''#'') ''0x''
       (case o_color t of None \<Rightarrow> ''#FFFFFF'' | Some c \<Rightarrow> if c = [] then ''#FFFFFF'' else c)"

definition overlay_size :: "TextOverlay \<Rightarrow> rat" where
  "overlay_size t = (case o_fontSize t of None \<Rightarrow> 36 | Some n \<Rightarrow> if n = 0 then 36 else n)"

definition overlay_x :: "TextOverlay \<Rightarrow> string" where
  "overlay_x t = (case o_x t of None \<Rightarrow> ''(w-text_w)/2'' | Some v \<Rightarrow> ''w*'' @ num_str v)"

definition overlay_y :: "TextOverlay \<Rightarrow> string" where
  "overlay_y t = (case o_y t of None \<Rightarrow> ''h*0.85'' | Some v \<Rightarrow> ''h*'' @ num_str v)"

definition overlay_enable :: "TextOverlay \<Rightarrow> string" where
  "overlay_enable t =
     (case (o_startSec t, o_endSec t) of
        (Some a, Some b) \<Rightarrow>
          '':enable='' @ [squote] @ ''between(t,'' @ num_str a @ '','' @ num_str b @ '')'' @ [squote]
      | _ \<Rightarrow> [])"

text \<open>
  \<^verbatim>\<open>t.text.replace\<close> throws a TypeError when the overlay has no text string; the
  other fields are read before and throw nothing.
\<close>

definition drawtext :: "TextOverlay \<Rightarrow> error + string" where
  "drawtext t =
     (let color = overlay_color t;
          size = overlay_size t;
          x = overlay_x t;
          y = overlay_y t;
          enable = overlay_enable t
      in case o_text t of
           None \<Rightarrow> Inl TypeError
         | Some txt \<Rightarrow>
             Inr (''drawtext=text='' @ [squote] @ escapeText txt @ [squote] @
                  '':fontsize='' @ num_str size @ '':fontcolor='' @ color @
                  '':x='' @ x @ '':y='' @ y @ enable))"

fun push_overlays :: "TextOverlay list \<Rightarrow> string list \<Rightarrow> error + string list" where
  "push_overlays [] filters = Inr filters"
| "push_overlays (t # ts) filters =
     (case drawtext t of
        Inl err \<Rightarrow> Inl err
      | Inr entry \<Rightarrow> push_overlays ts (filters @ [entry]))"

definition buildFFmpegFilters :: "ClipEdits \<Rightarrow> error + string list" where
  "buildFFmpegFilters e =
     (let filters = [];
          filters = push_crop e filters;
          filters = push_eq e filters;
          filters = push_speed e filters
      in case textOverlays e of
           None \<Rightarrow> Inr filters
         | Some ts \<Rightarrow> if ts \<noteq> [] then push_overlays ts filters else Inr filters)"

section \<open>POST /api/export-clip\<close>

text \<open>
  What the handler takes from its process: the two directories, the clock, the file
  system, the path functions of the Node library, and \<^verbatim>\<open>execAsync\<close>, which hands one
  command line to a shell and gives the error message when the command fails or runs
  out of time.
\<close>

record env =
  TEMP_DIR :: string
  EXPORT_DIR :: string
  now :: nat
  existsSync :: "string \<Rightarrow> bool"
  path_basename :: "string \<Rightarrow> string"
  path_join :: "string \<Rightarrow> string \<Rightarrow> string"
  execAsync :: "string \<Rightarrow> string option"

datatype failure = Thrown error | ExecError string

datatype response =
    Status400 string
  | Status422 string string
  | Status500 string failure
  | Status200 string string string

record outcome =
  spawned :: "string list"
  reply :: response

text \<open>\<^verbatim>\<open>edits?.speed || 1\<close>.\<close>

definition speed_or_1 :: "ClipEdits option \<Rightarrow> rat" where
  "speed_or_1 ed =
     (case ed of
        None \<Rightarrow> 1
      | Some e \<Rightarrow> (case speed e of None \<Rightarrow> 1 | Some s \<Rightarrow> if s = 0 then 1 else s))"

text \<open>The array of command pieces, before \<^verbatim>\<open>.filter(Boolean).join(" ")\<close>.\<close>

definition command_parts ::
  "string \<Rightarrow> string \<Rightarrow> Moment \<Rightarrow> ClipEdits option \<Rightarrow> string list \<Rightarrow> string list" where
  "command_parts resolvedSource outPath c ed filters =
     (let speed = speed_or_1 ed;
          startSec = startTime c;
          durationSec = endTime c - startTime c
      in [''ffmpeg -y'',
          ''-ss '' @ secondsToFFmpeg startSec,
          ''-i '' @ [dquote] @ resolvedSource @ [dquote],
          ''-t '' @ secondsToFFmpeg durationSec,
          (if filters \<noteq> [] then ''-vf '' @ [dquote] @ join '','' filters @ [dquote] else []),
          (if speed \<noteq> 1
           then ''-af '' @ [dquote] @ ''atempo='' @ num_str (min (max speed (1 / 2)) 2) @ [dquote]
           else []),
          ''-c:v libx264 -preset fast -crf 22'',
          ''-c:a aac -b:a 128k'',
          ''-movflags +faststart'',
          [dquote] @ outPath @ [dquote]])"

definition export_cmd ::
  "string \<Rightarrow> string \<Rightarrow> Moment \<Rightarrow> ClipEdits option \<Rightarrow> error + string" where
  "export_cmd resolvedSource outPath c ed =
     (case buildFFmpegFilters (case ed of None \<Rightarrow> no_edits | Some e \<Rightarrow> e) of
        Inl err \<Rightarrow> Inl err
      | Inr filters \<Rightarrow>
          Inr (join '' '' (filter (\<lambda>p. p \<noteq> [])
                 (command_parts resolvedSource outPath c ed filters))))"

definition export_clip :: "env \<Rightarrow> request \<Rightarrow> outcome" where
  "export_clip E req =
     (case (sourceFile req, clip req) of
        (Some src, Some c) \<Rightarrow>
          if src = [] then \<lparr>spawned = [], reply = Status400 ''Missing params''\<rparr>
          else
            let resolvedSource = path_join E (TEMP_DIR E) (path_basename E src)
            in if \<not> existsSync E resolvedSource
               then \<lparr>spawned = [],
                      reply = Status422 ''Source file not found. Please download the video first.''
                                (''Expected at: '' @ resolvedSource)\<rparr>
               else
                 let outName = ''clip_'' @ dec (now E) @ ''.mp4'';
                     outPath = path_join E (EXPORT_DIR E) outName
                 in (case export_cmd resolvedSource outPath c (edits req) of
                       Inl err \<Rightarrow>
                         \<lparr>spawned = [], reply = Status500 ''Export failed'' (Thrown err)\<rparr>
                     | Inr cmd \<Rightarrow>
                         (case execAsync E cmd of
                            Some msg \<Rightarrow>
                              \<lparr>spawned = [cmd],
                               reply = Status500 ''Export failed'' (ExecError msg)\<rparr>
                          | None \<Rightarrow>
                              \<lparr>spawned = [cmd],
                               reply = Status200 outName (''/exports/'' @ outName) outPath\<rparr>))
      | _ \<Rightarrow> \<lparr>spawned = [], reply = Status400 ''Missing params''\<rparr>)"

section \<open>What the engine computes from a crop entry\<close>

text \<open>
  The crop entry carries expressions that the engine evaluates on the frame it decodes.
  The fragment of the engine's expression language the entry uses is given as a syntax
  tree with the text it is written as and its value. Inside a filter chain a comma of an
  expression is written with a backslash before it. Products and quotients are written
  without brackets, which reads back as the same tree when the right operand is a name
  or a number, as in every tree below. Values are exact rationals.
\<close>

datatype fexpr =
    Var string
  | Num rat
  | Sub fexpr fexpr
  | Mul fexpr fexpr
  | Div fexpr fexpr
  | Trunc fexpr
  | Gt fexpr fexpr
  | Cond fexpr fexpr fexpr

primrec fprint :: "fexpr \<Rightarrow> string" where
  "fprint (Var v) = v"
| "fprint (Num n) = num_str n"
| "fprint (Sub a b) = ''('' @ fprint a @ ''-'' @ fprint b @ '')''"
| "fprint (Mul a b) = fprint a @ ''*'' @ fprint b"
| "fprint (Div a b) = fprint a @ ''/'' @ fprint b"
| "fprint (Trunc a) = ''trunc('' @ fprint a @ '')''"
| "fprint (Gt a b) = ''gt('' @ fprint a @ [bslash] @ '','' @ fprint b @ '')''"
| "fprint (Cond c a b) =
     ''if('' @ fprint c @ [bslash] @ '','' @ fprint a @ [bslash] @ '','' @ fprint b @ '')''"

primrec feval :: "(string \<Rightarrow> rat) \<Rightarrow> fexpr \<Rightarrow> rat" where
  "feval \<rho> (Var v) = \<rho> v"
| "feval \<rho> (Num n) = n"
| "feval \<rho> (Sub a b) = feval \<rho> a - feval \<rho> b"
| "feval \<rho> (Mul a b) = feval \<rho> a * feval \<rho> b"
| "feval \<rho> (Div a b) = feval \<rho> a / feval \<rho> b"
| "feval \<rho> (Trunc a) = of_int (js_trunc (feval \<rho> a))"
| "feval \<rho> (Gt a b) = (if feval \<rho> b < feval \<rho> a then 1 else 0)"
| "feval \<rho> (Cond c a b) = (if feval \<rho> c \<noteq> 0 then feval \<rho> a else feval \<rho> b)"

definition cropW_expr :: "rat \<Rightarrow> rat \<Rightarrow> fexpr" where
  "cropW_expr rw rh =
     Cond (Gt (Div (Var ''iw'') (Var ''ih'')) (Div (Num rw) (Num rh)))
          (Mul (Trunc (Div (Div (Mul (Var ''ih'') (Num rw)) (Num rh)) (Num 2))) (Num 2))
          (Var ''iw'')"

definition cropH_expr :: "rat \<Rightarrow> rat \<Rightarrow> fexpr" where
  "cropH_expr rw rh =
     Cond (Gt (Div (Var ''iw'') (Var ''ih'')) (Div (Num rw) (Num rh)))
          (Var ''ih'')
          (Mul (Trunc (Div (Div (Mul (Var ''iw'') (Num rh)) (Num rw)) (Num 2))) (Num 2))"

definition cropX_expr :: fexpr where
  "cropX_expr = Div (Sub (Var ''iw'') (Var ''out_w'')) (Num 2)"

definition cropY_expr :: fexpr where
  "cropY_expr = Div (Sub (Var ''ih'') (Var ''out_h'')) (Num 2)"

text \<open>
  The crop box of a frame of \<open>iw\<close> by \<open>ih\<close> pixels: width and height first, then the
  offsets, in which \<^verbatim>\<open>out_w\<close> and \<^verbatim>\<open>out_h\<close> are the width and height just computed.
\<close>

record crop_box =
  crop_w :: rat
  crop_h :: rat
  crop_x :: rat
  crop_y :: rat

definition frame_vars :: "nat \<Rightarrow> nat \<Rightarrow> string \<Rightarrow> rat" where
  "frame_vars iw ih v = (if v = ''iw'' then of_nat iw else if v = ''ih'' then of_nat ih else 0)"

definition crop_of :: "rat \<Rightarrow> rat \<Rightarrow> nat \<Rightarrow> nat \<Rightarrow> crop_box" where
  "crop_of rw rh iw ih =
     (let w = feval (frame_vars iw ih) (cropW_expr rw rh);
          h = feval (frame_vars iw ih) (cropH_expr rw rh);
          \<rho> = (frame_vars iw ih)(''out_w'' := w, ''out_h'' := h)
      in \<lparr>crop_w = w, crop_h = h, crop_x = feval \<rho> cropX_expr, crop_y = feval \<rho> cropY_expr\<rparr>)"

text \<open>The largest even integer that is not above a value.\<close>

definition round_even :: "rat \<Rightarrow> rat" where
  "round_even v = 2 * of_int \<lfloor>v / 2\<rfloor>"

section \<open>Notions the properties are stated with\<close>

text \<open>The overlays of the edits, an overlay with a text string, and the entry it gives.\<close>

definition overlays_of :: "ClipEdits \<Rightarrow> TextOverlay list" where
  "overlays_of e = (case textOverlays e of None \<Rightarrow> [] | Some ts \<Rightarrow> ts)"

definition has_text :: "TextOverlay \<Rightarrow> bool" where
  "has_text t = (o_text t \<noteq> None)"

definition entry_of :: "TextOverlay \<Rightarrow> string" where
  "entry_of t = (case drawtext t of Inl err \<Rightarrow> [] | Inr s \<Rightarrow> s)"

text \<open>
  Escaping, read the way the text-drawing filter reads it: a backslash takes the next
  character with it. A text has no unescaped instance when every backslash has a partner
  and no quote or colon stands outside such a pair; \<open>unescapeText\<close> gives the text back.
\<close>

definition escape_char :: "char \<Rightarrow> string" where
  "escape_char c = (if c = bslash \<or> c = squote \<or> c = colon then [bslash, c] else [c])"

fun no_unescaped :: "string \<Rightarrow> bool" where
  "no_unescaped [] = True"
| "no_unescaped [c] = (c \<noteq> bslash \<and> c \<noteq> squote \<and> c \<noteq> colon)"
| "no_unescaped (c # d # s) =
     (if c = bslash then no_unescaped s
      else c \<noteq> squote \<and> c \<noteq> colon \<and> no_unescaped (d # s))"

fun unescapeText :: "string \<Rightarrow> string" where
  "unescapeText [] = []"
| "unescapeText [c] = [c]"
| "unescapeText (c # d # s) =
     (if c = bslash then d # unescapeText s else c # unescapeText (d # s))"

text \<open>
  The value a decimal text denotes, and the number of digits after its point. These read
  back what \<open>toFixed\<close> and \<open>secondsToFFmpeg\<close> print.
\<close>

definition unsigned_value :: "string \<Rightarrow> rat" where
  "unsigned_value s =
     (case split_on (CHR ''.'') s of
        [ip] \<Rightarrow> of_nat (dec_val ip)
      | [ip, fp] \<Rightarrow> of_nat (dec_val ip) + of_nat (dec_val fp) / 10 ^ length fp
      | _ \<Rightarrow> 0)"

definition decimal_value :: "string \<Rightarrow> rat" where
  "decimal_value s =
     (case s of
        [] \<Rightarrow> 0
      | c # r \<Rightarrow> if c = CHR ''-'' then - unsigned_value r else unsigned_value s)"

definition fraction_digits :: "string \<Rightarrow> nat" where
  "fraction_digits s = (case split_on (CHR ''.'') s of [ip, fp] \<Rightarrow> length fp | _ \<Rightarrow> 0)"

text \<open>The digits of \<open>toFixed\<close> before the point is put in.\<close>

definition fixed_digits :: "nat \<Rightarrow> nat \<Rightarrow> string" where
  "fixed_digits f n = padStart (f + 1) (CHR ''0'') (dec n)"

text \<open>
  The engine's time format \<^verbatim>\<open>HH:MM:SS.mmm\<close>: hours of at least two digits, minutes and
  seconds of two digits each and below 60, and three digits after the point; and the
  number of seconds such a text denotes.
\<close>

definition is_timestamp :: "string \<Rightarrow> bool" where
  "is_timestamp s =
     (case split_on colon s of
        [h, m, sec] \<Rightarrow>
          2 \<le> length h \<and> list_all is_digit h \<and>
          length m = 2 \<and> list_all is_digit m \<and> dec_val m < 60 \<and>
          (case split_on (CHR ''.'') sec of
             [ss, ms] \<Rightarrow>
               length ss = 2 \<and> list_all is_digit ss \<and> dec_val ss < 60 \<and>
               length ms = 3 \<and> list_all is_digit ms
           | _ \<Rightarrow> False)
      | _ \<Rightarrow> False)"

definition timestamp_value :: "string \<Rightarrow> rat" where
  "timestamp_value s =
     (case split_on colon s of
        [h, m, sec] \<Rightarrow>
          of_nat (dec_val h) * 3600 + of_nat (dec_val m) * 60 + unsigned_value sec
      | _ \<Rightarrow> 0)"

text \<open>
  The kind of an entry of the visual chain, by the filter name it starts with:
  1 crop, 2 colour, 3 speed, 4 text overlay, 0 anything else.
\<close>

definition entry_stage :: "string \<Rightarrow> nat" where
  "entry_stage f =
     (if startsWith ''crop='' f then 1
      else if startsWith ''eq='' f then 2
      else if startsWith ''setpts='' f then 3
      else if startsWith ''drawtext='' f then 4
      else 0)"

text \<open>A colour field that is present and not zero.\<close>

definition nonzero :: "rat option \<Rightarrow> bool" where
  "nonzero v = (v \<noteq> None \<and> v \<noteq> Some 0)"

text \<open>A value that is an even integer.\<close>

definition is_even_int :: "rat \<Rightarrow> bool" where
  "is_even_int v = (v = round_even v)"

text \<open>The target ratios of the data model, as width and height.\<close>

definition supported_ratios :: "(nat \<times> nat) list" where
  "supported_ratios = [(9, 16), (16, 9), (1, 1), (4, 3)]"

text \<open>
  Rounding to the nearest even integer, which is how the comment above
  \<^verbatim>\<open>buildFFmpegFilters\<close> rounds to even: it takes 607.5 to 608.
\<close>

definition nearest_even :: "rat \<Rightarrow> rat" where
  "nearest_even v = 2 * of_int \<lfloor>v / 2 + 1 / 2\<rfloor>"

text \<open>
  The end-to-end scenario of the specification: ratio 9:16, speed 1.5 and one overlay
  \<^verbatim>\<open>Hi: there\<close> that is shown from second 1 to second 3; and the chain it gives.
\<close>

definition scenario_overlay :: TextOverlay where
  "scenario_overlay =
     \<lparr>o_id = Some ''t1'', o_text = Some ''Hi: there'', o_x = None, o_y = None,
      o_fontSize = None, o_color = None, o_startSec = Some 1, o_endSec = Some 3,
      o_bold = None\<rparr>"

definition scenario_edits :: ClipEdits where
  "scenario_edits =
     no_edits\<lparr>aspectRatio := Some ''9:16'', speed := Some (3 / 2),
              textOverlays := Some [scenario_overlay]\<rparr>"

definition scenario_filters :: "string list" where
  "scenario_filters =
     [''crop='' @ fprint (cropW_expr 9 16) @ '':'' @ fprint (cropH_expr 9 16) @ '':'' @
      fprint cropX_expr @ '':'' @ fprint cropY_expr,
      ''setpts=0.666667*PTS'',
      ''drawtext=text='' @ [squote] @ ''Hi'' @ [bslash] @ '': there'' @ [squote] @
      '':fontsize=36:fontcolor=0xFFFFFF:x=(w-text_w)/2:y=h*0.85:enable='' @ [squote] @
      ''between(t,1,3)'' @ [squote]]"

text \<open>
  The edit specifications that the specification calls invalid: a numeric field out of
  its range, an aspect ratio that is none of the five, or an overlay whose text is empty.
\<close>

definition outside :: "rat \<Rightarrow> rat \<Rightarrow> rat option \<Rightarrow> bool" where
  "outside lo hi v = (case v of None \<Rightarrow> False | Some x \<Rightarrow> x < lo \<or> hi < x)"

definition not_positive :: "rat option \<Rightarrow> bool" where
  "not_positive v = (case v of None \<Rightarrow> False | Some x \<Rightarrow> x \<le> 0)"

definition malformed_ratio :: "string option \<Rightarrow> bool" where
  "malformed_ratio r =
     (case r of
        None \<Rightarrow> False
      | Some a \<Rightarrow> \<not> List.member [''9:16'', ''16:9'', ''1:1'', ''4:3'', ''original''] a)"

definition invalid_overlay :: "TextOverlay \<Rightarrow> bool" where
  "invalid_overlay t =
     (o_text t = Some [] \<or> outside 0 1 (o_x t) \<or> outside 0 1 (o_y t) \<or>
      not_positive (o_fontSize t))"

definition invalid_edit_spec :: "ClipEdits \<Rightarrow> bool" where
  "invalid_edit_spec e =
     (outside (- 1) 1 (brightness e) \<or> outside (- 1) 1 (contrast e) \<or>
      outside (- 1) 1 (saturation e) \<or> not_positive (speed e) \<or>
      malformed_ratio (aspectRatio e) \<or> list_ex invalid_overlay (overlays_of e))"

text \<open>\<^verbatim>\<open>edits || {}\<close>, and the path the handler looks for the source at.\<close>

definition edits_or_empty :: "request \<Rightarrow> ClipEdits" where
  "edits_or_empty req = (case edits req of None \<Rightarrow> no_edits | Some e \<Rightarrow> e)"

definition resolved_source :: "env \<Rightarrow> string \<Rightarrow> string" where
  "resolved_source E src = path_join E (TEMP_DIR E) (path_basename E src)"

text \<open>
  A process in which every file exists and the engine succeeds, and a request for the
  first second of \<^verbatim>\<open>a.mp4\<close> whose edits are invalid in all three ways.
\<close>

definition demo_env :: env where
  "demo_env =
     \<lparr>TEMP_DIR = ''/srv/temp_videos'', EXPORT_DIR = ''/srv/exports'', now = 0,
      existsSync = (\<lambda>p. True), path_basename = (\<lambda>p. p),
      path_join = (\<lambda>d n. d @ ''/'' @ n), execAsync = (\<lambda>cmd. None)\<rparr>"

definition bad_edits :: ClipEdits where
  "bad_edits =
     no_edits\<lparr>aspectRatio := Some ''wide'', brightness := Some 5,
              textOverlays := Some [scenario_overlay\<lparr>o_text := Some []\<rparr>]\<rparr>"

definition bad_request :: request where
  "bad_request =
     \<lparr>sourceFile = Some ''a.mp4'', clip = Some \<lparr>startTime = 0, endTime = 1\<rparr>,
      edits = Some bad_edits\<rparr>"

text \<open>
  The characters a shell acts upon between double quotes, besides the backslash: the
  double quote, which ends the quoted part, and the dollar sign and the backquote, which
  start an expansion. A string is inert when it has none of them.
\<close>

definition shell_active :: "char \<Rightarrow> bool" where
  "shell_active c = (c = dquote \<or> c = CHR ''$'' \<or> c = CHR 0x60)"

definition inert :: "string \<Rightarrow> bool" where
  "inert s = list_all (\<lambda>c. \<not> shell_active c) s"

text \<open>The text and the colour of an overlay as the request gives them.\<close>

definition text_of :: "TextOverlay \<Rightarrow> string" where
  "text_of t = (case o_text t of None \<Rightarrow> [] | Some s \<Rightarrow> s)"

definition color_of :: "TextOverlay \<Rightarrow> string" where
  "color_of t = (case o_color t of None \<Rightarrow> [] | Some s \<Rightarrow> s)"

text \<open>
  A request whose overlay text ends the quoted filter chain, puts a command of its own on
  the line and opens a new quoted part; and the command line the handler makes of it.
\<close>

definition inj_overlay :: TextOverlay where
  "inj_overlay =
     \<lparr>o_id = Some ''t1'', o_text = Some ([dquote] @ ''; echo injected; '' @ [dquote]),
      o_x = None, o_y = None, o_fontSize = None, o_color = None, o_startSec = None,
      o_endSec = None, o_bold = None\<rparr>"

definition inj_edits :: ClipEdits where
  "inj_edits = no_edits\<lparr>textOverlays := Some [inj_overlay]\<rparr>"

definition inj_request :: request where
  "inj_request =
     \<lparr>sourceFile = Some ''a.mp4'', clip = Some \<lparr>startTime = 0, endTime = 1\<rparr>,
      edits = Some inj_edits\<rparr>"

definition inj_entry :: string where
  "inj_entry =
     ''drawtext=text='' @ [squote, dquote] @ ''; echo injected; '' @ [dquote, squote] @
     '':fontsize=36:fontcolor=0xFFFFFF:x=(w-text_w)/2:y=h*0.85''"

definition inj_command :: string where
  "inj_command =
     ''ffmpeg -y -ss 00:00:00.000 -i '' @ [dquote] @ ''/srv/temp_videos/a.mp4'' @ [dquote] @
     '' -t 00:00:01.000 -vf '' @ [dquote] @ inj_entry @ [dquote] @
     '' -c:v libx264 -preset fast -crf 22 -c:a aac -b:a 128k -movflags +faststart '' @
     [dquote] @ ''/srv/exports/clip_0.mp4'' @ [dquote]"

section \<open>The structure of the filter list\<close>

lemma push_crop_append: "push_crop e fs = fs @ push_crop e []"
  by (simp add: push_crop_def split: option.splits)

lemma push_eq_append: "push_eq e fs = fs @ push_eq e []"
  by (simp add: push_eq_def Let_def)

lemma push_speed_append: "push_speed e fs = fs @ push_speed e []"
  by (simp add: push_speed_def split: option.splits)

lemma drawtext_cases:
  "drawtext t = (if has_text t then Inr (entry_of t) else Inl TypeError)"
  by (simp add: drawtext_def entry_of_def has_text_def Let_def split: option.splits)

lemma push_overlays_eq:
  "push_overlays ts fs =
     (if list_all has_text ts then Inr (fs @ map entry_of ts) else Inl TypeError)"
  by (induction ts arbitrary: fs) (simp_all add: drawtext_cases)

lemma buildFFmpegFilters_eq:
  "buildFFmpegFilters e =
     (if list_all has_text (overlays_of e)
      then Inr (push_crop e [] @ push_eq e [] @ push_speed e [] @ map entry_of (overlays_of e))
      else Inl TypeError)"
proof -
  have a: "push_speed e (push_eq e (push_crop e [])) =
           push_crop e [] @ push_eq e [] @ push_speed e []"
    using push_speed_append [of e "push_eq e (push_crop e [])"]
          push_eq_append [of e "push_crop e []"]
    by simp
  show ?thesis
    by (simp add: buildFFmpegFilters_def Let_def a overlays_of_def push_overlays_eq
        split: option.splits)
qed

section \<open>Escaping of overlay text\<close>

lemma replaceAll_append: "replaceAll c r (xs @ ys) = replaceAll c r xs @ replaceAll c r ys"
  by (induction xs) simp_all

lemma escapeText_Nil: "escapeText [] = []"
  by (simp add: escapeText_def)

lemma escapeText_Cons: "escapeText (c # s) = escape_char c @ escapeText s"
  by (simp add: escapeText_def escape_char_def replaceAll_append)

lemma escapeText_concat: "escapeText s = concat (map escape_char s)"
  by (induction s) (simp_all add: escapeText_Cons escapeText_Nil)

lemma no_unescaped_plain:
  "c \<noteq> bslash \<Longrightarrow> c \<noteq> squote \<Longrightarrow> c \<noteq> colon \<Longrightarrow> no_unescaped s \<Longrightarrow> no_unescaped (c # s)"
  by (cases s) simp_all

lemma no_unescaped_escapeText: "no_unescaped (escapeText s)"
  by (induction s)
     (auto simp: escapeText_Cons escapeText_Nil escape_char_def intro: no_unescaped_plain)

lemma unescapeText_plain: "c \<noteq> bslash \<Longrightarrow> unescapeText (c # s) = c # unescapeText s"
  by (cases s) simp_all

lemma unescapeText_escapeText: "unescapeText (escapeText s) = s"
  by (induction s)
     (auto simp: escapeText_Cons escapeText_Nil escape_char_def unescapeText_plain)

text \<open>
  C1. The three replacements of the escaper amount to putting a backslash before every
  backslash, single quote and colon of the text and leaving the other characters as they
  are. For every input the escaped text has no unescaped instance of the three
  characters, the text is recovered from it, and it is this escaped text that stands
  between the quotes of the \<^verbatim>\<open>drawtext\<close> entry.
\<close>

theorem escape_closes_text:
  "escapeText s = concat (map escape_char s) \<and>
   no_unescaped (escapeText s) \<and>
   unescapeText (escapeText s) = s \<and>
   drawtext (t\<lparr>o_text := Some s\<rparr>) =
     Inr (''drawtext=text='' @ [squote] @ escapeText s @ [squote] @
          '':fontsize='' @ num_str (overlay_size t) @ '':fontcolor='' @ overlay_color t @
          '':x='' @ overlay_x t @ '':y='' @ overlay_y t @ overlay_enable t)"
  by (simp add: escapeText_concat [symmetric] no_unescaped_escapeText unescapeText_escapeText
      drawtext_def Let_def overlay_size_def overlay_color_def overlay_x_def overlay_y_def
      overlay_enable_def)

theorem escape_closes_text_witness:
  "escapeText [bslash, squote, colon] = [bslash, bslash, bslash, squote, bslash, colon] \<and>
   no_unescaped [bslash, bslash, bslash, squote, bslash, colon] \<and>
   unescapeText [bslash, bslash, bslash, squote, bslash, colon] = [bslash, squote, colon]"
  using escape_closes_text [of "[bslash, squote, colon]"]
  by (simp add: escape_char_def)

section \<open>Decimal digits\<close>

lemma lt10_cases:
  "k < (10::nat) \<Longrightarrow> k = 0 \<or> k = 1 \<or> k = 2 \<or> k = 3 \<or> k = 4 \<or> k = 5 \<or> k = 6 \<or> k = 7 \<or> k = 8 \<or> k = 9"
  by arith

lemma is_digit_digit_char: "is_digit (digit_char d)"
proof -
  have "d mod 10 < length ''0123456789''" by simp
  then have "''0123456789'' ! (d mod 10) \<in> set ''0123456789''" by (rule nth_mem)
  then show ?thesis by (simp only: is_digit_def digit_char_def)
qed

lemma digit_val_digit_char: "digit_val (digit_char d) = d mod 10"
proof -
  have "d mod 10 < 10" by simp
  then show ?thesis
    using lt10_cases [of "d mod 10"]
    by (auto simp: digit_val_def digit_char_def)
qed

lemma dec_lt10: "n < 10 \<Longrightarrow> dec n = [digit_char n]"
  by (subst dec.simps) simp

lemma dec_ge10: "10 \<le> n \<Longrightarrow> dec n = dec (n div 10) @ [digit_char n]"
  by (subst dec.simps) simp

lemma dec_digits: "list_all is_digit (dec n)"
proof (induction n rule: dec.induct)
  case (1 n)
  show ?case
  proof (cases "n < 10")
    case True
    then show ?thesis by (simp add: dec_lt10 is_digit_digit_char)
  next
    case False
    with 1 show ?thesis by (simp add: dec_ge10 is_digit_digit_char)
  qed
qed

lemma dec_nonempty: "dec n \<noteq> []"
  by (cases "n < 10") (simp_all add: dec_lt10 dec_ge10)

lemma dec_val_snoc: "dec_val (s @ [c]) = 10 * dec_val s + digit_val c"
  by (simp add: dec_val_def)

lemma dec_val_dec: "dec_val (dec n) = n"
proof (induction n rule: dec.induct)
  case (1 n)
  show ?case
  proof (cases "n < 10")
    case True
    then show ?thesis by (simp add: dec_lt10 dec_val_def digit_val_digit_char)
  next
    case False
    with 1 show ?thesis by (simp add: dec_ge10 dec_val_snoc digit_val_digit_char)
  qed
qed

lemma length_dec_lt10: "n < 10 \<Longrightarrow> length (dec n) = 1"
  by (simp add: dec_lt10)

lemma length_dec_lt100: "n < 100 \<Longrightarrow> length (dec n) \<le> 2"
  by (cases "n < 10") (simp_all add: dec_lt10 dec_ge10)

lemma length_dec_bound: "n < 10 ^ k \<Longrightarrow> 0 < k \<Longrightarrow> length (dec n) \<le> k"
proof (induction n arbitrary: k rule: dec.induct)
  case (1 n)
  show ?case
  proof (cases "n < 10")
    case True
    with 1(3) show ?thesis by (simp add: dec_lt10)
  next
    case False
    then obtain j where k: "k = Suc j" using 1(3) by (cases k) auto
    have "0 < j" using False 1(2) k by (cases j) auto
    moreover have "n div 10 < 10 ^ j" using 1(2) k by (simp add: less_mult_imp_div_less mult.commute)
    ultimately have "length (dec (n div 10)) \<le> j" using 1(1) [OF False] by simp
    then show ?thesis using False k by (simp add: dec_ge10)
  qed
qed

lemma dec_val_Cons_zero: "dec_val (CHR ''0'' # s) = dec_val s"
  by (simp add: dec_val_def digit_val_def)

lemma dec_val_zeros: "dec_val (replicate k (CHR ''0'') @ s) = dec_val s"
  by (induction k) (simp_all add: dec_val_Cons_zero)

lemma dec_val_append: "dec_val (a @ b) = dec_val a * 10 ^ length b + dec_val b"
proof (induction b rule: rev_induct)
  case Nil
  then show ?case by (simp add: dec_val_def)
next
  case (snoc c b)
  have "dec_val (a @ b @ [c]) = 10 * dec_val (a @ b) + digit_val c"
    using dec_val_snoc [of "a @ b" c] by simp
  then show ?case using snoc by (simp add: dec_val_snoc algebra_simps)
qed

lemma num_str_of_nat: "num_str (of_nat n) = dec n"
  by (simp add: num_str_def)

lemma num_str_0: "num_str 0 = ''0''"
  using num_str_of_nat [of 0] by (simp add: dec_lt10 digit_char_def)

lemma num_str_numeral: "num_str (numeral k) = dec (numeral k)"
  using num_str_of_nat [of "numeral k"] by simp

section \<open>The precision of toFixed\<close>

lemma split_on_nonempty: "split_on c s \<noteq> []"
  by (induction s) (simp_all split: list.splits)

lemma split_on_none: "c \<notin> set a \<Longrightarrow> split_on c a = [a]"
  by (induction a) (auto split: list.splits)

lemma split_on_at: "c \<notin> set a \<Longrightarrow> split_on c (a @ c # r) = a # split_on c r"
  by (induction a) (auto split: list.splits)

lemma is_digit_not_punct:
  "is_digit c \<Longrightarrow> c \<noteq> CHR ''.'' \<and> c \<noteq> colon \<and> c \<noteq> CHR ''-''"
  unfolding is_digit_def by auto

lemma digits_no_dot: "list_all is_digit s \<Longrightarrow> CHR ''.'' \<notin> set s"
  by (induction s) (use is_digit_not_punct in auto)

lemma digits_no_colon: "list_all is_digit s \<Longrightarrow> colon \<notin> set s"
  by (induction s) (use is_digit_not_punct in auto)

lemma digits_no_minus: "list_all is_digit s \<Longrightarrow> CHR ''-'' \<notin> set s"
  by (induction s) (use is_digit_not_punct in auto)

lemma unsigned_value_point:
  "list_all is_digit ip \<Longrightarrow> list_all is_digit fp \<Longrightarrow>
   unsigned_value (ip @ CHR ''.'' # fp) = of_nat (dec_val ip) + of_nat (dec_val fp) / 10 ^ length fp"
  by (simp add: unsigned_value_def split_on_at split_on_none digits_no_dot)

lemma unsigned_value_int: "list_all is_digit ip \<Longrightarrow> unsigned_value ip = of_nat (dec_val ip)"
  by (simp add: unsigned_value_def split_on_none digits_no_dot)

lemma is_digit_zeros: "list_all is_digit (replicate k (CHR ''0''))"
  by (induction k) (simp_all add: is_digit_def)

lemma fixed_digits_all: "list_all is_digit (fixed_digits f n)"
  by (simp add: fixed_digits_def padStart_def dec_digits is_digit_zeros)

lemma fixed_digits_length: "f < length (fixed_digits f n)"
  by (simp add: fixed_digits_def padStart_def)

lemma fixed_digits_val: "dec_val (fixed_digits f n) = n"
  by (simp add: fixed_digits_def padStart_def dec_val_zeros dec_val_dec)

lemma fixed_digits_split:
  "of_nat (dec_val (take (length (fixed_digits f n) - f) (fixed_digits f n))) +
   of_nat (dec_val (drop (length (fixed_digits f n) - f) (fixed_digits f n))) / 10 ^ f
   = (of_nat n / 10 ^ f :: rat)"
proof -
  let ?m = "fixed_digits f n"
  let ?k = "length ?m - f"
  have len: "length (drop ?k ?m) = f" using fixed_digits_length [of f n] by simp
  have "dec_val ?m = dec_val (take ?k ?m @ drop ?k ?m)" by simp
  also have "\<dots> = dec_val (take ?k ?m) * 10 ^ f + dec_val (drop ?k ?m)"
    using dec_val_append [of "take ?k ?m" "drop ?k ?m"] len by simp
  finally have "n = dec_val (take ?k ?m) * 10 ^ f + dec_val (drop ?k ?m)"
    by (simp add: fixed_digits_val)
  then have "(of_nat n :: rat) = of_nat (dec_val (take ?k ?m)) * 10 ^ f + of_nat (dec_val (drop ?k ?m))"
    by (metis of_nat_add of_nat_mult of_nat_numeral of_nat_power)
  then show ?thesis by (simp add: field_simps)
qed

lemma toFixed_nonneg:
  "0 \<le> v \<Longrightarrow> v < 10 ^ 21 \<Longrightarrow>
   toFixed f v =
     take (length (fixed_digits f (nat \<lfloor>v * 10 ^ f + 1 / 2\<rfloor>)) - f) (fixed_digits f (nat \<lfloor>v * 10 ^ f + 1 / 2\<rfloor>)) @
     (if f = 0 then [] else CHR ''.'' # drop (length (fixed_digits f (nat \<lfloor>v * 10 ^ f + 1 / 2\<rfloor>)) - f) (fixed_digits f (nat \<lfloor>v * 10 ^ f + 1 / 2\<rfloor>)))"
  by (simp add: toFixed_def Let_def fixed_digits_def)

lemma toFixed_neg:
  "v < 0 \<Longrightarrow> - v < 10 ^ 21 \<Longrightarrow> toFixed f v = CHR ''-'' # toFixed f (- v)"
  by (simp add: toFixed_def Let_def)

lemma round_half_up_close:
  fixes v :: rat
  assumes "0 \<le> v"
  shows "\<bar>of_nat (nat \<lfloor>v * 10 ^ f + 1 / 2\<rfloor>) / 10 ^ f - v\<bar> \<le> 1 / (2 * 10 ^ f)"
proof -
  define p :: rat where "p = 10 ^ f"
  define z :: rat where "z = of_int \<lfloor>v * p + 1 / 2\<rfloor>"
  have p: "0 < p" by (simp add: p_def)
  have nn: "0 \<le> \<lfloor>v * p + 1 / 2\<rfloor>" using assms p by simp
  have n: "(of_nat (nat \<lfloor>v * p + 1 / 2\<rfloor>) :: rat) = z" using nn by (simp add: z_def)
  have "z \<le> v * p + 1 / 2" and "v * p + 1 / 2 < z + 1" unfolding z_def by linarith+
  then have d: "\<bar>z - v * p\<bar> \<le> 1 / 2" by linarith
  have "z / p - v = (z - v * p) / p" using p by (simp add: field_simps)
  then have "\<bar>z / p - v\<bar> = \<bar>z - v * p\<bar> / p" using p by simp
  also have "\<dots> \<le> (1 / 2) / p" using p by (intro divide_right_mono d) simp
  finally have "\<bar>z / p - v\<bar> \<le> 1 / (2 * p)" by simp
  then show ?thesis using n by (simp add: p_def)
qed

lemma toFixed_nonneg_value:
  assumes "0 \<le> v" "v < 10 ^ 21"
  shows "\<bar>unsigned_value (toFixed f v) - v\<bar> \<le> 1 / (2 * 10 ^ f)"
    and "fraction_digits (toFixed f v) = f"
    and "toFixed f v \<noteq> []" and "hd (toFixed f v) \<noteq> CHR ''-''"
proof -
  let ?n = "nat \<lfloor>v * 10 ^ f + 1 / 2\<rfloor>"
  let ?m = "fixed_digits f ?n"
  let ?k = "length ?m - f"
  have ip: "list_all is_digit (take ?k ?m)" and fp: "list_all is_digit (drop ?k ?m)"
    using fixed_digits_all [of f ?n] by (auto simp: list_all_iff dest: in_set_takeD in_set_dropD)
  have len: "length (drop ?k ?m) = f" using fixed_digits_length [of f ?n] by simp
  have kpos: "0 < ?k" using fixed_digits_length [of f ?n] by simp
  have ipne: "take ?k ?m \<noteq> []" using kpos fixed_digits_length [of f ?n] by auto
  have val: "unsigned_value (toFixed f v) = of_nat ?n / 10 ^ f"
  proof (cases "f = 0")
    case True
    then show ?thesis
      using assms fixed_digits_all [of 0 ?n]
      by (simp add: toFixed_nonneg unsigned_value_int fixed_digits_val)
  next
    case False
    then show ?thesis
      using assms ip fp len fixed_digits_split [of f ?n]
      by (simp add: toFixed_nonneg unsigned_value_point)
  qed
  show "\<bar>unsigned_value (toFixed f v) - v\<bar> \<le> 1 / (2 * 10 ^ f)"
    using val round_half_up_close [OF assms(1), of f] by simp
  show "fraction_digits (toFixed f v) = f"
  proof (cases "f = 0")
    case True
    then show ?thesis
      using assms fixed_digits_all [of 0 ?n]
      by (simp add: toFixed_nonneg fraction_digits_def split_on_none digits_no_dot)
  next
    case False
    then show ?thesis
      using assms ip fp len
      by (simp add: toFixed_nonneg fraction_digits_def split_on_none split_on_at digits_no_dot)
  qed
  show "toFixed f v \<noteq> []" using assms ipne by (simp add: toFixed_nonneg)
  have "hd (take ?k ?m) \<in> set (take ?k ?m)" using ipne by (rule hd_in_set)
  then have "hd (take ?k ?m) \<noteq> CHR ''-''" using ip digits_no_minus by metis
  then show "hd (toFixed f v) \<noteq> CHR ''-''" using assms ipne by (simp add: toFixed_nonneg)
qed

lemma toFixed_precision:
  assumes "\<bar>v\<bar> < 10 ^ 21"
  shows "\<bar>decimal_value (toFixed f v) - v\<bar> \<le> 1 / (2 * 10 ^ f) \<and> fraction_digits (toFixed f v) = f"
proof (cases "0 \<le> v")
  case True
  then have v: "v < 10 ^ 21" using assms by simp
  note t = toFixed_nonneg_value [OF True v, of f]
  have "decimal_value (toFixed f v) = unsigned_value (toFixed f v)"
    using t(3,4) by (cases "toFixed f v") (simp_all add: decimal_value_def)
  then show ?thesis using t(1,2) by simp
next
  case False
  then have neg: "v < 0" and b: "- v < 10 ^ 21" and nn: "0 \<le> - v" using assms by simp_all
  note t = toFixed_nonneg_value [OF nn b, of f]
  have e: "toFixed f v = CHR ''-'' # toFixed f (- v)" using neg b by (rule toFixed_neg)
  have "decimal_value (toFixed f v) = - unsigned_value (toFixed f (- v))"
    by (simp add: e decimal_value_def)
  moreover have "fraction_digits (toFixed f v) = fraction_digits (toFixed f (- v))"
    by (simp add: e fraction_digits_def split: list.splits)
  ultimately show ?thesis using t(1,2) by simp
qed

section \<open>Seek and duration\<close>

lemma pad_dec:
  "list_all is_digit (padStart n (CHR ''0'') (dec k))"
  "n \<le> length (padStart n (CHR ''0'') (dec k))"
  "dec_val (padStart n (CHR ''0'') (dec k)) = k"
  by (simp_all add: padStart_def dec_digits is_digit_zeros dec_val_zeros dec_val_dec)

lemma num_str_of_int_nonneg: "0 \<le> i \<Longrightarrow> num_str (of_int i) = dec (nat i)"
  using num_str_of_nat [of "nat i"] by simp

lemma js_rem_nonneg: "0 \<le> a \<Longrightarrow> 0 < b \<Longrightarrow> js_rem a b = a - b * of_int \<lfloor>a / b\<rfloor>"
  by (simp add: js_rem_def js_trunc_def)

lemma js_rem_range:
  assumes "0 \<le> a" "0 < b"
  shows "0 \<le> js_rem a b" and "js_rem a b < b"
proof -
  define q :: rat where "q = of_int \<lfloor>a / b\<rfloor>"
  have l: "q \<le> a / b" and u: "a / b < q + 1" unfolding q_def by linarith+
  have "q * b \<le> (a / b) * b" using l assms(2) by (intro mult_right_mono) simp_all
  then have l': "q * b \<le> a" using assms(2) by simp
  have "(a / b) * b < (q + 1) * b" using u assms(2) by (intro mult_strict_right_mono) simp_all
  then have u': "a < (q + 1) * b" using assms(2) by simp
  have e: "js_rem a b = a - b * q" using assms by (simp add: js_rem_nonneg q_def)
  show "0 \<le> js_rem a b" using l' by (simp add: e mult.commute)
  show "js_rem a b < b" using u' by (simp add: e algebra_simps)
qed

lemma digit_val_lt10: "is_digit c \<Longrightarrow> digit_val c < 10"
  by (auto simp: is_digit_def digit_val_def)

lemma dec_val_bound: "list_all is_digit s \<Longrightarrow> dec_val s < 10 ^ length s"
proof (induction s rule: rev_induct)
  case Nil
  then show ?case by (simp add: dec_val_def)
next
  case (snoc c s)
  then have "dec_val s < 10 ^ length s" and "digit_val c < 10"
    by (simp_all add: digit_val_lt10)
  then have "10 * dec_val s + digit_val c < 10 * 10 ^ length s" by linarith
  then show ?case by (simp add: dec_val_snoc)
qed

lemma fixed_digits_parts:
  "dec_val (take (length (fixed_digits f n) - f) (fixed_digits f n)) * 10 ^ f +
   dec_val (drop (length (fixed_digits f n) - f) (fixed_digits f n)) = n"
proof -
  let ?m = "fixed_digits f n"
  let ?k = "length ?m - f"
  have len: "length (drop ?k ?m) = f" using fixed_digits_length [of f n] by simp
  have "dec_val ?m = dec_val (take ?k ?m @ drop ?k ?m)" by simp
  also have "\<dots> = dec_val (take ?k ?m) * 10 ^ f + dec_val (drop ?k ?m)"
    using dec_val_append [of "take ?k ?m" "drop ?k ?m"] len by simp
  finally show ?thesis by (simp add: fixed_digits_val)
qed

lemma seconds_field:
  assumes "0 \<le> x" "x < 60"
  shows "\<exists>ss ms. padStart 6 (CHR ''0'') (toFixed 3 x) = ss @ CHR ''.'' # ms \<and>
           length ss = 2 \<and> list_all is_digit ss \<and> length ms = 3 \<and> list_all is_digit ms \<and>
           dec_val ss = nat \<lfloor>x * 1000 + 1 / 2\<rfloor> div 1000 \<and>
           of_nat (dec_val ss) + of_nat (dec_val ms) / 1000 = (of_nat (nat \<lfloor>x * 1000 + 1 / 2\<rfloor>) / 1000 :: rat)"
proof -
  define n where "n = nat \<lfloor>x * 1000 + 1 / 2\<rfloor>"
  define m where "m = fixed_digits 3 n"
  define k where "k = length m - 3"
  have "x * 1000 + 1 / 2 < 60001" using assms by simp
  then have "\<lfloor>x * 1000 + 1 / 2\<rfloor> < 60001" by (simp add: floor_less_iff)
  then have "n < 100000" unfolding n_def by linarith
  then have nb: "n < 10 ^ 5" by simp
  have "length (dec n) \<le> 5" using length_dec_bound [OF nb] by simp
  then have up: "length m \<le> 5" by (simp add: m_def fixed_digits_def padStart_def)
  have lo: "3 < length m" unfolding m_def by (rule fixed_digits_length)
  have dm: "list_all is_digit m" unfolding m_def by (rule fixed_digits_all)
  have k: "k = 1 \<or> k = 2" using up lo by (auto simp: k_def)
  have ip: "list_all is_digit (take k m)" and fp: "list_all is_digit (drop k m)"
    using dm by (auto simp: list_all_iff dest: in_set_takeD in_set_dropD)
  have lfp: "length (drop k m) = 3" using lo by (simp add: k_def)
  have lip: "length (take k m) = k" using lo by (simp add: k_def)
  have x21: "x < 10 ^ 21" using assms by simp
  have tf: "toFixed 3 x = take k m @ CHR ''.'' # drop k m"
    using toFixed_nonneg [OF assms(1) x21, of 3] by (simp add: n_def m_def k_def)
  let ?ss = "replicate (2 - k) (CHR ''0'') @ take k m"
  have parts: "dec_val (take k m) * 1000 + dec_val (drop k m) = n"
    using fixed_digits_parts [of 3 n] by (simp add: m_def k_def)
  have "dec_val (drop k m) < 1000" using dec_val_bound [OF fp] lfp by simp
  then have dv: "dec_val ?ss = n div 1000" using parts by (simp add: dec_val_zeros)
  have "padStart 6 (CHR ''0'') (toFixed 3 x) = ?ss @ CHR ''.'' # drop k m"
    using k lip lfp by (auto simp: tf padStart_def)
  moreover have "length ?ss = 2" using k lip by auto
  moreover have "list_all is_digit ?ss" using ip by (simp add: is_digit_zeros)
  moreover have "of_nat (dec_val ?ss) + of_nat (dec_val (drop k m)) / 1000 = (of_nat n / 1000 :: rat)"
    using fixed_digits_split [of 3 n] by (simp add: dec_val_zeros m_def k_def)
  ultimately show ?thesis using lfp fp dv unfolding n_def by blast
qed

text \<open>
  What \<open>secondsToFFmpeg\<close> prints for a time from 0 on denotes the time to within half a
  millisecond. It has the engine's format exactly when the seconds within the minute
  stay below 59.9995: from there on \<open>toFixed\<close> rounds them to \<^verbatim>\<open>60.000\<close>, and nothing
  carries the 60 over into the minutes.
\<close>

lemma secondsToFFmpeg_nonneg:
  assumes "0 \<le> s"
  shows "is_timestamp (secondsToFFmpeg s) \<longleftrightarrow> js_rem s 60 < 119999 / 2000"
    and "\<bar>timestamp_value (secondsToFFmpeg s) - s\<bar> \<le> 1 / 2000"
proof -
  define h where "h = nat \<lfloor>s / 3600\<rfloor>"
  define m where "m = nat \<lfloor>js_rem s 3600 / 60\<rfloor>"
  define x where "x = js_rem s 60"
  define n where "n = nat \<lfloor>x * 1000 + 1 / 2\<rfloor>"
  define H where "H = padStart 2 (CHR ''0'') (dec h)"
  define M where "M = padStart 2 (CHR ''0'') (dec m)"
  have h0: "0 \<le> \<lfloor>s / 3600\<rfloor>" using assms by simp
  have r: "0 \<le> js_rem s 3600" "js_rem s 3600 < 3600" using js_rem_range [OF assms, of 3600] by simp_all
  have m0: "0 \<le> \<lfloor>js_rem s 3600 / 60\<rfloor>" using r by simp
  have "js_rem s 3600 / 60 < 60" using r by simp
  then have "\<lfloor>js_rem s 3600 / 60\<rfloor> < 60" by (simp add: floor_less_iff)
  then have m60: "m < 60" unfolding m_def by linarith
  have x: "0 \<le> x" "x < 60" using js_rem_range [OF assms, of 60] by (simp_all add: x_def)
  obtain ss ms where sec: "padStart 6 (CHR ''0'') (toFixed 3 x) = ss @ CHR ''.'' # ms"
    and ss: "length ss = 2" "list_all is_digit ss" and ms: "length ms = 3" "list_all is_digit ms"
    and dv: "dec_val ss = n div 1000"
    and v: "of_nat (dec_val ss) + of_nat (dec_val ms) / 1000 = (of_nat n / 1000 :: rat)"
    using seconds_field [OF x] unfolding n_def by blast
  have e: "secondsToFFmpeg s = H @ colon # M @ colon # ss @ CHR ''.'' # ms"
    using h0 m0 sec
    by (simp add: secondsToFFmpeg_def Let_def num_str_of_int_nonneg H_def M_def h_def m_def x_def)
  have Hd: "list_all is_digit H" "2 \<le> length H" "dec_val H = h" unfolding H_def by (rule pad_dec)+
  have Md: "list_all is_digit M" "2 \<le> length M" "dec_val M = m" unfolding M_def by (rule pad_dec)+
  have "m < 100" using m60 by simp
  then have "length (dec m) \<le> 2" by (rule length_dec_lt100)
  then have Ml: "length M = 2" using dec_nonempty [of m] by (simp add: M_def padStart_def)
  have nc: "colon \<notin> set (ss @ CHR ''.'' # ms)"
    using digits_no_colon [OF ss(2)] digits_no_colon [OF ms(2)] by simp
  have sp: "split_on colon (secondsToFFmpeg s) = [H, M, ss @ CHR ''.'' # ms]"
    using digits_no_colon [OF Hd(1)] digits_no_colon [OF Md(1)] nc
    by (simp add: e split_on_at split_on_none)
  have sd: "split_on (CHR ''.'') (ss @ CHR ''.'' # ms) = [ss, ms]"
    using digits_no_dot [OF ss(2)] digits_no_dot [OF ms(2)] by (simp add: split_on_at split_on_none)
  have fmt: "is_timestamp (secondsToFFmpeg s) \<longleftrightarrow> n div 1000 < 60"
    using Hd Md Ml m60 ss ms dv by (simp add: is_timestamp_def sp sd)
  have n0: "0 \<le> \<lfloor>x * 1000 + 1 / 2\<rfloor>" using x by simp
  have "n div 1000 < 60 \<longleftrightarrow> n < 60000" by arith
  also have "\<dots> \<longleftrightarrow> \<lfloor>x * 1000 + 1 / 2\<rfloor> < 60000" using n0 unfolding n_def by linarith
  also have "\<dots> \<longleftrightarrow> x * 1000 + 1 / 2 < 60000" by (simp add: floor_less_iff)
  also have "\<dots> \<longleftrightarrow> x < 119999 / 2000" by (simp add: field_simps) 
  finally show "is_timestamp (secondsToFFmpeg s) \<longleftrightarrow> js_rem s 60 < 119999 / 2000"
    using fmt by (simp add: x_def)
  have uv: "unsigned_value (ss @ CHR ''.'' # ms) = of_nat n / 1000"
    using v ms(1) by (simp add: unsigned_value_point [OF ss(2) ms(2)])
  have tv: "timestamp_value (secondsToFFmpeg s) =
            of_nat h * 3600 + of_nat m * 60 + of_nat n / 1000"
    by (simp add: timestamp_value_def sp Hd Md uv)
  have hh: "(of_nat h :: rat) = of_int \<lfloor>s / 3600\<rfloor>" using h0 by (simp add: h_def)
  have mm: "(of_nat m :: rat) = of_int \<lfloor>js_rem s 3600 / 60\<rfloor>" using m0 by (simp add: m_def)
  have r3600: "js_rem s 3600 = s - 3600 * of_int \<lfloor>s / 3600\<rfloor>" using assms by (simp add: js_rem_nonneg)
  have "s / 60 = js_rem s 3600 / 60 + of_int (60 * \<lfloor>s / 3600\<rfloor>)"
    by (simp add: r3600 field_simps)
  then have "\<lfloor>s / 60\<rfloor> = \<lfloor>js_rem s 3600 / 60\<rfloor> + 60 * \<lfloor>s / 3600\<rfloor>"
    by (metis floor_add_int)
  then have "x = s - 60 * (of_int \<lfloor>js_rem s 3600 / 60\<rfloor> + 60 * of_int \<lfloor>s / 3600\<rfloor>)"
    using assms by (simp add: x_def js_rem_nonneg)
  then have dec: "s = of_nat h * 3600 + of_nat m * 60 + x" by (simp add: hh mm)
  have c: "\<bar>of_nat n / 1000 - x\<bar> \<le> 1 / 2000"
    using round_half_up_close [OF x(1), of 3] by (simp add: n_def)
  have "timestamp_value (secondsToFFmpeg s) - s = of_nat n / 1000 - x"
    using tv dec by linarith
  then show "\<bar>timestamp_value (secondsToFFmpeg s) - s\<bar> \<le> 1 / 2000"
    using c by (simp only:)
qed

lemma floor_rat_numeral_div: "\<lfloor>numeral a / numeral b :: rat\<rfloor> = numeral a div numeral b"
  by (metis floor_divide_of_int_eq of_int_numeral)

lemma floor_rat_one_div: "\<lfloor>1 / numeral b :: rat\<rfloor> = 1 div numeral b"
  by (metis floor_divide_of_int_eq of_int_numeral of_int_1)

lemmas floor_eval = floor_rat_numeral_div floor_rat_one_div

lemmas dec_eval = dec_lt10 dec_ge10 digit_char_def

lemma num_str_36: "num_str 36 = ''36''"
  by (simp add: num_str_numeral dec_eval)

lemma num_str_2: "num_str 2 = ''2''"
  by (simp add: num_str_numeral dec_eval)

lemma toFixed_3_45: "toFixed 3 45 = ''45.000''"
proof -
  have a1: "(10 ^ 21 \<le> \<bar>45::rat\<bar>) = False" by simp
  have a2: "nat \<lfloor>\<bar>45::rat\<bar> * 10 ^ 3 + 1 / 2\<rfloor> = 45000" by (simp add: floor_rat_numeral_div)
  have a3: "padStart (3 + 1) (CHR ''0'') (dec 45000) = ''45000''" by (simp add: padStart_def dec_eval)
  show ?thesis unfolding toFixed_def Let_def a1 a2 a3 by simp
qed

lemma toFixed_6_third: "toFixed 6 (1 / 3) = ''0.333333''"
proof -
  have a1: "(10 ^ 21 \<le> \<bar>1 / 3::rat\<bar>) = False" by simp
  have a2: "nat \<lfloor>\<bar>1 / 3::rat\<bar> * 10 ^ 6 + 1 / 2\<rfloor> = 333333" by (simp add: floor_rat_numeral_div)
  have a3: "padStart (6 + 1) (CHR ''0'') (dec 333333) = ''0333333''" by (simp add: padStart_def dec_eval)
  show ?thesis unfolding toFixed_def Let_def a1 a2 a3 by simp
qed

lemma secondsToFFmpeg_45: "secondsToFFmpeg 45 = ''00:00:45.000''"
proof -
  have r: "js_rem 45 3600 = 45" "js_rem 45 60 = 45"
    by (simp_all add: js_rem_def js_trunc_def floor_eval)
  show ?thesis
    by (simp add: secondsToFFmpeg_def Let_def r floor_eval toFixed_3_45 num_str_0 padStart_def)
qed

lemma build_ignores_trim:
  "buildFFmpegFilters (e\<lparr>trimStart := a, trimEnd := b\<rparr>) = buildFFmpegFilters e"
  by (simp add: buildFFmpegFilters_def push_crop_def push_eq_def eq_parts_def push_speed_def)

lemma parts_ignore_trim:
  "command_parts src out c (Some (e\<lparr>trimStart := a, trimEnd := b\<rparr>)) fs =
   command_parts src out c (Some e) fs"
  by (simp add: command_parts_def speed_or_1_def)

text \<open>
  For a moment with \<open>0 \<le> startTime < endTime\<close> the command seeks to \<open>startTime\<close> and
  renders \<open>endTime - startTime\<close> seconds; \<open>trimStart\<close> and \<open>trimEnd\<close> change nothing. Both
  texts denote their time to within half a millisecond, and each has the engine's format
  as long as its seconds within the minute are below 59.9995. The moment from 45 to 90
  gives \<^verbatim>\<open>00:00:45.000\<close> twice.
\<close>

lemma seek_and_duration:
  assumes "0 \<le> startTime c" and "startTime c < endTime c"
  shows "command_parts src out c ed fs ! 1 = ''-ss '' @ secondsToFFmpeg (startTime c) \<and>
         command_parts src out c ed fs ! 3 = ''-t '' @ secondsToFFmpeg (endTime c - startTime c) \<and>
         export_cmd src out c (Some (e\<lparr>trimStart := a, trimEnd := b\<rparr>)) = export_cmd src out c (Some e) \<and>
         \<bar>timestamp_value (secondsToFFmpeg (startTime c)) - startTime c\<bar> \<le> 1 / 2000 \<and>
         \<bar>timestamp_value (secondsToFFmpeg (endTime c - startTime c)) - (endTime c - startTime c)\<bar> \<le> 1 / 2000 \<and>
         (is_timestamp (secondsToFFmpeg (startTime c)) \<longleftrightarrow>
            js_rem (startTime c) 60 < 119999 / 2000) \<and>
         (is_timestamp (secondsToFFmpeg (endTime c - startTime c)) \<longleftrightarrow>
            js_rem (endTime c - startTime c) 60 < 119999 / 2000) \<and>
         (startTime c = 45 \<and> endTime c = 90 \<longrightarrow>
            secondsToFFmpeg (startTime c) = ''00:00:45.000'' \<and>
            secondsToFFmpeg (endTime c - startTime c) = ''00:00:45.000'')"
proof -
  have d: "0 \<le> endTime c - startTime c" using assms by simp
  have p: "command_parts src out c ed fs ! 1 = ''-ss '' @ secondsToFFmpeg (startTime c)"
          "command_parts src out c ed fs ! 3 = ''-t '' @ secondsToFFmpeg (endTime c - startTime c)"
    by (simp_all add: command_parts_def Let_def)
  have t: "export_cmd src out c (Some (e\<lparr>trimStart := a, trimEnd := b\<rparr>)) = export_cmd src out c (Some e)"
    by (simp add: export_cmd_def build_ignores_trim parts_ignore_trim split: sum.splits)
  have x: "startTime c = 45 \<and> endTime c = 90 \<longrightarrow>
            secondsToFFmpeg (startTime c) = ''00:00:45.000'' \<and>
            secondsToFFmpeg (endTime c - startTime c) = ''00:00:45.000''"
    by (simp add: secondsToFFmpeg_45)
  show ?thesis
    using p t x secondsToFFmpeg_nonneg [OF assms(1)] secondsToFFmpeg_nonneg [OF d] by blast
qed

lemma toFixed_3_sixty: "toFixed 3 (149999 / 2500) = ''60.000''"
proof -
  have a1: "(10 ^ 21 \<le> \<bar>149999 / 2500::rat\<bar>) = False" by simp
  have a2: "nat \<lfloor>\<bar>149999 / 2500::rat\<bar> * 10 ^ 3 + 1 / 2\<rfloor> = 60000" by (simp add: floor_eval)
  have a3: "padStart (3 + 1) (CHR ''0'') (dec 60000) = ''60000''" by (simp add: padStart_def dec_eval)
  show ?thesis unfolding toFixed_def Let_def a1 a2 a3 by simp
qed

lemma toFixed_3_small: "toFixed 3 (1 / 2500) = ''0.000''"
proof -
  have a1: "(10 ^ 21 \<le> \<bar>1 / 2500::rat\<bar>) = False" by simp
  have a2: "nat \<lfloor>\<bar>1 / 2500::rat\<bar> * 10 ^ 3 + 1 / 2\<rfloor> = 0" by (simp add: floor_eval)
  have a3: "padStart (3 + 1) (CHR ''0'') (dec 0) = ''0000''"
    by (simp add: padStart_def dec_eval numeral_3_eq_3)
  show ?thesis unfolding toFixed_def Let_def a1 a2 a3 by simp
qed

lemma secondsToFFmpeg_sixty: "secondsToFFmpeg (149999 / 2500) = ''00:00:60.000''"
proof -
  have r: "js_rem (149999 / 2500) 3600 = 149999 / 2500" "js_rem (149999 / 2500) 60 = 149999 / 2500"
    by (simp_all add: js_rem_def js_trunc_def floor_eval)
  show ?thesis
    by (simp add: secondsToFFmpeg_def Let_def r floor_eval toFixed_3_sixty num_str_0 padStart_def)
qed

lemma secondsToFFmpeg_minute: "secondsToFFmpeg (150001 / 2500) = ''00:01:00.000''"
proof -
  have r: "js_rem (150001 / 2500) 3600 = 150001 / 2500" "js_rem (150001 / 2500) 60 = 1 / 2500"
    by (simp_all add: js_rem_def js_trunc_def floor_eval)
  have n1: "num_str 1 = ''1''" using num_str_of_nat [of 1] by (simp add: dec_eval)
  show ?thesis
    by (simp add: secondsToFFmpeg_def Let_def r floor_eval toFixed_3_small num_str_0 n1
        padStart_def)
qed

lemma timestamp_sixty: "\<not> is_timestamp ''00:00:60.000''"
  by (simp add: is_timestamp_def is_digit_def dec_val_def digit_val_def)

lemma timestamp_minute:
  "is_timestamp ''00:01:00.000'' \<and> timestamp_value ''00:01:00.000'' = 60"
  by (simp add: is_timestamp_def timestamp_value_def unsigned_value_def is_digit_def dec_val_def
      digit_val_def)

text \<open>
  C6. The seek is \<open>startTime\<close> and the duration \<open>endTime - startTime\<close>, without the trim
  offsets, but the text is not always of the format \<^verbatim>\<open>HH:MM:SS.mmm\<close>: the seconds are
  rounded to three digits after they have been split from the minutes, and a round-up to
  60 is not carried over. For the moment from 59.9996 to 120 the command seeks to
  \<^verbatim>\<open>00:00:60.000\<close>, which is no time of the format; \<^verbatim>\<open>00:01:00.000\<close> is one and denotes 60
  seconds. The duration of the same moment, 60.0004 seconds, is printed well.
\<close>

theorem seek_without_carry:
  "export_cmd ''in.mp4'' ''out.mp4'' \<lparr>startTime = 149999 / 2500, endTime = 120\<rparr> None =
     Inr (''ffmpeg -y -ss 00:00:60.000 -i '' @ [dquote] @ ''in.mp4'' @ [dquote] @
          '' -t 00:01:00.000 -c:v libx264 -preset fast -crf 22 -c:a aac -b:a 128k'' @
          '' -movflags +faststart '' @ [dquote] @ ''out.mp4'' @ [dquote]) \<and>
   \<not> is_timestamp ''00:00:60.000'' \<and>
   is_timestamp ''00:01:00.000'' \<and> timestamp_value ''00:01:00.000'' = 60"
proof -
  have b: "buildFFmpegFilters no_edits = Inr []"
    by (simp add: buildFFmpegFilters_def Let_def no_edits_def push_crop_def push_eq_def
        eq_parts_def push_speed_def)
  have d: "(120::rat) - 149999 / 2500 = 150001 / 2500" by simp
  have "export_cmd ''in.mp4'' ''out.mp4'' \<lparr>startTime = 149999 / 2500, endTime = 120\<rparr> None =
     Inr (''ffmpeg -y -ss 00:00:60.000 -i '' @ [dquote] @ ''in.mp4'' @ [dquote] @
          '' -t 00:01:00.000 -c:v libx264 -preset fast -crf 22 -c:a aac -b:a 128k'' @
          '' -movflags +faststart '' @ [dquote] @ ''out.mp4'' @ [dquote])"
    by (simp add: export_cmd_def b command_parts_def Let_def speed_or_1_def d
        secondsToFFmpeg_sixty secondsToFFmpeg_minute)
  then show ?thesis using timestamp_sixty timestamp_minute by simp
qed

section \<open>The kinds of entries\<close>

lemma stage_crop: "f \<in> set (push_crop e []) \<Longrightarrow> entry_stage f = 1"
  by (auto simp: push_crop_def crop_filter_def Let_def entry_stage_def startsWith_def
      split: option.splits if_splits)

lemma stage_eq: "f \<in> set (push_eq e []) \<Longrightarrow> entry_stage f = 2"
  by (auto simp: push_eq_def Let_def entry_stage_def startsWith_def split: if_splits)

lemma stage_speed: "f \<in> set (push_speed e []) \<Longrightarrow> entry_stage f = 3"
  by (auto simp: push_speed_def entry_stage_def startsWith_def split: option.splits if_splits)

lemma stage_text: "has_text t \<Longrightarrow> entry_stage (entry_of t) = 4"
  by (auto simp: has_text_def entry_of_def drawtext_def Let_def entry_stage_def startsWith_def)

lemma length_push_crop: "length (push_crop e []) \<le> 1"
  by (simp add: push_crop_def split: option.splits)

lemma length_push_eq: "length (push_eq e []) \<le> 1"
  by (simp add: push_eq_def Let_def)

lemma length_push_speed: "length (push_speed e []) \<le> 1"
  by (simp add: push_speed_def split: option.splits)

lemma stage_texts:
  "list_all has_text ts \<Longrightarrow> f \<in> set (map entry_of ts) \<Longrightarrow> entry_stage f = 4"
  by (auto simp: list_all_iff stage_text)

lemma stage_of_built:
  assumes "buildFFmpegFilters e = Inr fs" and "f \<in> set fs"
  shows "f \<in> set (push_crop e []) \<and> entry_stage f = 1 \<or>
         f \<in> set (push_eq e []) \<and> entry_stage f = 2 \<or>
         f \<in> set (push_speed e []) \<and> entry_stage f = 3 \<or>
         f \<in> set (map entry_of (overlays_of e)) \<and> entry_stage f = 4"
proof -
  have t: "list_all has_text (overlays_of e)"
    and fs: "fs = push_crop e [] @ push_eq e [] @ push_speed e [] @ map entry_of (overlays_of e)"
    using assms(1) by (auto simp: buildFFmpegFilters_eq split: if_splits)
  from assms(2) fs have
    "f \<in> set (push_crop e []) \<or> f \<in> set (push_eq e []) \<or> f \<in> set (push_speed e []) \<or>
     f \<in> set (map entry_of (overlays_of e))" by auto
  then show ?thesis using stage_crop stage_eq stage_speed stage_texts [OF t] by blast
qed

section \<open>The order of the chain\<close>

lemma sorted_const: "\<forall>x\<in>set xs. g x = (k::nat) \<Longrightarrow> sorted (map g xs)"
  by (induction xs) auto

lemma take_hd: "take n f = c # p \<Longrightarrow> hd f = c"
  by (cases f; cases n) auto

lemma staged_not_atempo: "1 \<le> entry_stage f \<Longrightarrow> \<not> startsWith ''atempo'' f"
  by (auto simp: entry_stage_def startsWith_def split: if_splits dest!: take_hd)

lemma no_vf_piece:
  "\<forall>p\<in>set (filter (\<lambda>p. p \<noteq> []) (command_parts src out c ed [])). \<not> startsWith ''-vf'' p"
  by (simp add: command_parts_def Let_def startsWith_def)

text \<open>
  C5. The entries of the visual chain are, in this order, the crop entry, the colour
  entry, the video part of the speed change and the overlay entries in the order of the
  overlays; each of the first three is there at most once and is left out when it is
  empty. The audio tempo is a piece of the command of its own and no entry of the visual
  chain. When the chain is empty the command has no \<^verbatim>\<open>-vf\<close> piece.
\<close>

theorem filter_order:
  assumes "buildFFmpegFilters e = Inr fs"
  shows "fs = push_crop e [] @ push_eq e [] @ push_speed e [] @ map entry_of (overlays_of e) \<and>
         length (push_crop e []) \<le> 1 \<and> length (push_eq e []) \<le> 1 \<and>
         length (push_speed e []) \<le> 1 \<and>
         sorted (map entry_stage fs) \<and> (\<forall>f\<in>set fs. 1 \<le> entry_stage f) \<and>
         filter (\<lambda>f. entry_stage f = 4) fs = map entry_of (overlays_of e) \<and>
         (\<forall>f\<in>set fs. \<not> startsWith ''atempo'' f) \<and>
         command_parts src out c ed fs ! 4 =
           (if fs = [] then [] else ''-vf '' @ [dquote] @ join '','' fs @ [dquote]) \<and>
         command_parts src out c ed fs ! 5 =
           (if speed_or_1 ed = 1 then []
            else ''-af '' @ [dquote] @ ''atempo='' @
                 num_str (min (max (speed_or_1 ed) (1 / 2)) 2) @ [dquote]) \<and>
         (fs = [] \<longrightarrow>
            (\<forall>p\<in>set (filter (\<lambda>p. p \<noteq> []) (command_parts src out c ed fs)).
               \<not> startsWith ''-vf'' p))"
proof -
  let ?A = "push_crop e []" and ?B = "push_eq e []" and ?C = "push_speed e []"
  let ?D = "map entry_of (overlays_of e)"
  have t: "list_all has_text (overlays_of e)" and fs: "fs = ?A @ ?B @ ?C @ ?D"
    using assms by (auto simp: buildFFmpegFilters_eq split: if_splits)
  have a: "\<forall>f\<in>set ?A. entry_stage f = 1" and b: "\<forall>f\<in>set ?B. entry_stage f = 2"
    and c: "\<forall>f\<in>set ?C. entry_stage f = 3" and d: "\<forall>f\<in>set ?D. entry_stage f = 4"
    using stage_crop stage_eq stage_speed stage_texts [OF t] by blast+
  have srt: "sorted (map entry_stage fs)"
    using a b c d sorted_const [OF a] sorted_const [OF b] sorted_const [OF c] sorted_const [OF d]
    by (simp add: fs sorted_append) force
  have pos: "\<forall>f\<in>set fs. 1 \<le> entry_stage f" using a b c d by (auto simp: fs)
  have fa: "filter (\<lambda>f. entry_stage f = 4) ?A = []" using a by (auto simp: filter_empty_conv)
  have fb: "filter (\<lambda>f. entry_stage f = 4) ?B = []" using b by (auto simp: filter_empty_conv)
  have fc: "filter (\<lambda>f. entry_stage f = 4) ?C = []" using c by (auto simp: filter_empty_conv)
  have fd: "filter (\<lambda>f. entry_stage f = 4) ?D = ?D" using d by (auto simp: filter_id_conv)
  have ovs: "filter (\<lambda>f. entry_stage f = 4) fs = ?D" by (simp add: fs fa fb fc fd)
  have na: "\<forall>f\<in>set fs. \<not> startsWith ''atempo'' f" using pos staged_not_atempo by blast
  have p4: "command_parts src out c ed fs ! 4 =
           (if fs = [] then [] else ''-vf '' @ [dquote] @ join '','' fs @ [dquote])"
    by (simp add: command_parts_def Let_def)
  have p5: "command_parts src out c ed fs ! 5 =
           (if speed_or_1 ed = 1 then []
            else ''-af '' @ [dquote] @ ''atempo='' @
                 num_str (min (max (speed_or_1 ed) (1 / 2)) 2) @ [dquote])"
    by (simp add: command_parts_def Let_def)
  have nv: "fs = [] \<longrightarrow>
            (\<forall>p\<in>set (filter (\<lambda>p. p \<noteq> []) (command_parts src out c ed fs)).
               \<not> startsWith ''-vf'' p)"
    using no_vf_piece by blast
  show ?thesis
    using fs length_push_crop length_push_eq length_push_speed srt pos ovs na p4 p5 nv
    by blast
qed

section \<open>The crop entry and the box it denotes\<close>

lemma js_Number_dec: "js_Number (dec n) = Fin (of_nat n)"
  by (simp add: js_Number_def dec_digits dec_val_dec)

lemma split_ratio: "split_on colon (dec rw @ colon # dec rh) = [dec rw, dec rh]"
  using digits_no_colon [OF dec_digits [of rw]] digits_no_colon [OF dec_digits [of rh]]
  by (simp add: split_on_at split_on_none)

lemma cropW_text_print: "cropW_text (num_str rw) (num_str rh) = fprint (cropW_expr rw rh)"
  by (simp add: cropW_text_def cropW_expr_def num_str_2)

lemma cropH_text_print: "cropH_text (num_str rw) (num_str rh) = fprint (cropH_expr rw rh)"
  by (simp add: cropH_text_def cropH_expr_def num_str_2)

lemma crop_offsets_print:
  "'':(iw-out_w)/2:(ih-out_h)/2'' = '':'' @ fprint cropX_expr @ '':'' @ fprint cropY_expr"
  by (simp add: cropX_expr_def cropY_expr_def num_str_2)

lemma ratio_parts:
  "index_opt (map js_Number (split_on colon (dec rw @ '':'' @ dec rh))) 0 = Some (Fin (of_nat rw))"
  "index_opt (map js_Number (split_on colon (dec rw @ '':'' @ dec rh))) 1 = Some (Fin (of_nat rh))"
  by (simp_all add: split_ratio js_Number_dec)

lemma crop_filter_ratio:
  "crop_filter (dec rw @ '':'' @ dec rh) =
     ''crop='' @ fprint (cropW_expr (of_nat rw) (of_nat rh)) @ '':'' @
     fprint (cropH_expr (of_nat rw) (of_nat rh)) @ '':'' @
     fprint cropX_expr @ '':'' @ fprint cropY_expr"
  unfolding crop_filter_def Let_def ratio_parts template_num.simps
    cropW_text_print cropH_text_print crop_offsets_print
  by simp

lemma ratio_not_original: "dec rw @ '':'' @ dec rh \<noteq> ''original'' \<and> dec rw @ '':'' @ dec rh \<noteq> []"
proof -
  obtain d ds where d: "dec rw = d # ds" using dec_nonempty [of rw] by (cases "dec rw") auto
  have "is_digit d" using dec_digits [of rw] by (simp add: d)
  then have "d \<noteq> CHR ''o''" by (auto simp: is_digit_def)
  then show ?thesis by (simp add: d)
qed

lemma push_crop_ratio:
  "push_crop (e\<lparr>aspectRatio := Some (dec rw @ '':'' @ dec rh)\<rparr>) fs =
     fs @ [''crop='' @ fprint (cropW_expr (of_nat rw) (of_nat rh)) @ '':'' @
           fprint (cropH_expr (of_nat rw) (of_nat rh)) @ '':'' @
           fprint cropX_expr @ '':'' @ fprint cropY_expr]"
  using ratio_not_original [of rw rh] crop_filter_ratio [of rw rh]
  by (simp add: push_crop_def)

lemma round_even_bounds: "round_even v \<le> v \<and> v < round_even v + 2"
proof -
  have "of_int \<lfloor>v / 2\<rfloor> \<le> v / 2" and "v / 2 < of_int \<lfloor>v / 2\<rfloor> + 1" by linarith+
  then show ?thesis by (simp add: round_even_def)
qed

lemma is_even_round_even: "is_even_int (round_even v)"
  by (simp add: is_even_int_def round_even_def)

lemma is_even_of_nat: "is_even_int (of_nat n) \<longleftrightarrow> even n"
proof -
  have f: "\<lfloor>(of_nat n :: rat) / 2\<rfloor> = int (n div 2)"
    using floor_divide_of_nat_eq [of n 2, where ?'a = rat] by simp
  have "is_even_int (of_nat n) \<longleftrightarrow> (of_nat n :: rat) = of_nat (2 * (n div 2))"
    by (simp add: is_even_int_def round_even_def f)
  also have "\<dots> \<longleftrightarrow> n = 2 * (n div 2)" by (simp only: of_nat_eq_iff)
  also have "\<dots> \<longleftrightarrow> even n" by presburger
  finally show ?thesis .
qed

lemma crop_of_eq:
  assumes "0 < rw" "0 < rh" "0 < iw" "0 < ih"
  shows "crop_of (of_nat rw) (of_nat rh) iw ih =
     (if (of_nat rw / of_nat rh :: rat) < of_nat iw / of_nat ih
      then \<lparr>crop_w = round_even (of_nat ih * of_nat rw / of_nat rh), crop_h = of_nat ih,
            crop_x = (of_nat iw - round_even (of_nat ih * of_nat rw / of_nat rh)) / 2,
            crop_y = 0\<rparr>
      else \<lparr>crop_w = of_nat iw, crop_h = round_even (of_nat iw * of_nat rh / of_nat rw),
            crop_x = 0,
            crop_y = (of_nat ih - round_even (of_nat iw * of_nat rh / of_nat rw)) / 2\<rparr>)"
proof -
  have a: "0 \<le> (of_nat ih * of_nat rw / of_nat rh / 2 :: rat)" by simp
  have b: "0 \<le> (of_nat iw * of_nat rh / of_nat rw / 2 :: rat)" by simp
  show ?thesis
    using a b
    by (simp add: crop_of_def Let_def cropW_expr_def cropH_expr_def cropX_expr_def cropY_expr_def
        frame_vars_def js_trunc_def round_even_def)
qed

lemma round_even_nonneg: "0 \<le> v \<Longrightarrow> 0 \<le> round_even v"
  by (simp add: round_even_def)

lemma original_no_crop:
  assumes "buildFFmpegFilters (e\<lparr>aspectRatio := Some ''original''\<rparr>) = Inr gs"
  shows "\<forall>f\<in>set gs. \<not> startsWith ''crop='' f"
proof
  fix f assume f: "f \<in> set gs"
  have "push_crop (e\<lparr>aspectRatio := Some ''original''\<rparr>) [] = []" by (simp add: push_crop_def)
  then have "entry_stage f \<noteq> 1" using stage_of_built [OF assms f] by auto
  then show "\<not> startsWith ''crop='' f" by (auto simp: entry_stage_def)
qed

lemma crop_bounds:
  assumes "0 < rw" "0 < rh" "0 < iw" "0 < ih"
  shows "crop_w (crop_of (of_nat rw) (of_nat rh) iw ih) \<le> of_nat iw"
    and "crop_h (crop_of (of_nat rw) (of_nat rh) iw ih) \<le> of_nat ih"
    and "0 \<le> crop_w (crop_of (of_nat rw) (of_nat rh) iw ih)"
    and "0 \<le> crop_h (crop_of (of_nat rw) (of_nat rh) iw ih)"
proof -
  let ?rw = "of_nat rw :: rat" and ?rh = "of_nat rh :: rat"
  let ?iw = "of_nat iw :: rat" and ?ih = "of_nat ih :: rat"
  have pos: "0 < ?rw" "0 < ?rh" "0 < ?iw" "0 < ?ih" using assms by simp_all
  note e = crop_of_eq [OF assms]
  show "crop_w (crop_of ?rw ?rh iw ih) \<le> ?iw"
  proof (cases "?rw / ?rh < ?iw / ?ih")
    case True
    then have "?ih * ?rw / ?rh < ?iw" using pos by (simp add: field_simps)
    then show ?thesis using True round_even_bounds [of "?ih * ?rw / ?rh"] by (simp add: e)
  next
    case False
    then show ?thesis by (simp add: e)
  qed
  show "crop_h (crop_of ?rw ?rh iw ih) \<le> ?ih"
  proof (cases "?rw / ?rh < ?iw / ?ih")
    case True
    then show ?thesis by (simp add: e)
  next
    case False
    then have "?iw * ?rh / ?rw \<le> ?ih" using pos by (simp add: field_simps)
    then show ?thesis using False round_even_bounds [of "?iw * ?rh / ?rw"] by (simp add: e)
  qed
  show "0 \<le> crop_w (crop_of ?rw ?rh iw ih)" by (simp add: e round_even_nonneg)
  show "0 \<le> crop_h (crop_of ?rw ?rh iw ih)" by (simp add: e round_even_nonneg)
qed

text \<open>
  For a target ratio \<open>rw:rh\<close> the crop entry carries the four expressions below. On a
  frame of \<open>iw\<close> by \<open>ih\<close> pixels they give: when \<open>iw/ih > rw/rh\<close> the full height and the width
  \<open>round_even (ih * rw / rh)\<close>, otherwise the full width and the height
  \<open>round_even (iw * rh / rw)\<close>, with the offsets \<open>(iw - crop_w) / 2\<close> and \<open>(ih - crop_h) / 2\<close>.
  Here \<open>round_even v\<close> is what the expression computes, the even integer with
  \<open>round_even v \<le> v < round_even v + 2\<close>. For the ratio \<^verbatim>\<open>original\<close> no crop entry is made,
  whatever the other edits are.
\<close>

lemma crop_box_values:
  assumes "0 < rw" "0 < rh" "0 < iw" "0 < ih"
  shows "push_crop (e\<lparr>aspectRatio := Some (dec rw @ '':'' @ dec rh)\<rparr>) fs =
           fs @ [''crop='' @ fprint (cropW_expr (of_nat rw) (of_nat rh)) @ '':'' @
                 fprint (cropH_expr (of_nat rw) (of_nat rh)) @ '':'' @
                 fprint cropX_expr @ '':'' @ fprint cropY_expr] \<and>
         ((of_nat rw / of_nat rh :: rat) < of_nat iw / of_nat ih \<longrightarrow>
            crop_h (crop_of (of_nat rw) (of_nat rh) iw ih) = of_nat ih \<and>
            crop_w (crop_of (of_nat rw) (of_nat rh) iw ih) =
              round_even (of_nat ih * of_nat rw / of_nat rh)) \<and>
         (\<not> (of_nat rw / of_nat rh :: rat) < of_nat iw / of_nat ih \<longrightarrow>
            crop_w (crop_of (of_nat rw) (of_nat rh) iw ih) = of_nat iw \<and>
            crop_h (crop_of (of_nat rw) (of_nat rh) iw ih) =
              round_even (of_nat iw * of_nat rh / of_nat rw)) \<and>
         crop_x (crop_of (of_nat rw) (of_nat rh) iw ih) =
           (of_nat iw - crop_w (crop_of (of_nat rw) (of_nat rh) iw ih)) / 2 \<and>
         crop_y (crop_of (of_nat rw) (of_nat rh) iw ih) =
           (of_nat ih - crop_h (crop_of (of_nat rw) (of_nat rh) iw ih)) / 2 \<and>
         round_even v \<le> v \<and> v < round_even v + 2 \<and> is_even_int (round_even v) \<and>
         push_crop (e\<lparr>aspectRatio := Some ''original''\<rparr>) fs = fs \<and>
         (buildFFmpegFilters (e\<lparr>aspectRatio := Some ''original''\<rparr>) = Inr gs \<longrightarrow>
            (\<forall>f\<in>set gs. \<not> startsWith ''crop='' f))"
proof -
  note e = crop_of_eq [OF assms]
  have o: "push_crop (e\<lparr>aspectRatio := Some ''original''\<rparr>) fs = fs" by (simp add: push_crop_def)
  show ?thesis
    using push_crop_ratio [where e = e and rw = rw and rh = rh and fs = fs]
      round_even_bounds [of v] is_even_round_even [of v] o
      original_no_crop [where e = e and gs = gs]
    by (simp add: e)
qed

lemma crop_box_1080p:
  "crop_w (crop_of 9 16 1920 1080) = 606 \<and> crop_h (crop_of 9 16 1920 1080) = 1080 \<and>
   crop_x (crop_of 9 16 1920 1080) = 657 \<and> crop_y (crop_of 9 16 1920 1080) = 0"
proof -
  have p: "(0::nat) < 9" "(0::nat) < 16" "(0::nat) < 1920" "(0::nat) < 1080" by simp_all
  have r: "round_even (1215 / 2) = 606" by (simp add: round_even_def floor_eval)
  show ?thesis using crop_of_eq [OF p] by (simp add: r)
qed

lemma built_9_16:
  "buildFFmpegFilters (no_edits\<lparr>aspectRatio := Some ''9:16''\<rparr>) =
     Inr [''crop='' @ fprint (cropW_expr 9 16) @ '':'' @ fprint (cropH_expr 9 16) @ '':'' @
          fprint cropX_expr @ '':'' @ fprint cropY_expr]"
proof -
  have d: "dec 9 @ '':'' @ dec 16 = ''9:16''" by (simp add: dec_eval)
  have c: "crop_filter ''9:16'' =
     ''crop='' @ fprint (cropW_expr 9 16) @ '':'' @ fprint (cropH_expr 9 16) @ '':'' @
      fprint cropX_expr @ '':'' @ fprint cropY_expr"
    using crop_filter_ratio [of 9 16] unfolding d by simp
  show ?thesis
    by (simp add: buildFFmpegFilters_def Let_def no_edits_def push_crop_def c push_eq_def
        eq_parts_def push_speed_def)
qed

lemma cropW_9_16:
  "fprint (cropW_expr 9 16) =
     ''if(gt(iw/ih'' @ [bslash] @ '',9/16)'' @ [bslash] @ '',trunc(ih*9/16/2)*2'' @ [bslash] @
     '',iw)''"
  by (simp add: cropW_expr_def num_str_numeral dec_eval)

text \<open>
  C3. The branches, the offsets and the ratio \<^verbatim>\<open>original\<close> are as the claim says, but the
  width is not the rounding to even that the code documents. For a frame of 1920 by 1080
  pixels and the ratio 9:16 the comment above \<^verbatim>\<open>buildFFmpegFilters\<close> works the example:
  \<open>1080 * 9 / 16\<close> is 607.5, rounded to even 608, with the offset 656. The expression in
  the entry divides by 2, truncates and doubles, which gives the width 606 and the
  offset 657.
\<close>

theorem crop_width_1080p:
  "buildFFmpegFilters (no_edits\<lparr>aspectRatio := Some ''9:16''\<rparr>) =
     Inr [''crop='' @ fprint (cropW_expr 9 16) @ '':'' @ fprint (cropH_expr 9 16) @ '':'' @
          fprint cropX_expr @ '':'' @ fprint cropY_expr] \<and>
   fprint (cropW_expr 9 16) =
     ''if(gt(iw/ih'' @ [bslash] @ '',9/16)'' @ [bslash] @ '',trunc(ih*9/16/2)*2'' @ [bslash] @
     '',iw)'' \<and>
   crop_w (crop_of 9 16 1920 1080) = 606 \<and> crop_h (crop_of 9 16 1920 1080) = 1080 \<and>
   crop_x (crop_of 9 16 1920 1080) = 657 \<and> crop_y (crop_of 9 16 1920 1080) = 0 \<and>
   nearest_even (1080 * 9 / 16) = 608 \<and> (1920 - nearest_even (1080 * 9 / 16)) / 2 = 656"
proof -
  have n: "nearest_even (1080 * 9 / 16) = 608" by (simp add: nearest_even_def floor_eval)
  have o: "(1920 - nearest_even (1080 * 9 / 16)) / 2 = 656"
    by (simp add: nearest_even_def floor_eval)
  show ?thesis
    by (intro conjI built_9_16 cropW_9_16 n o) (simp_all add: crop_box_1080p)
qed

text \<open>
  C2, as stated, fails on a frame with an odd side: a frame of 853 by 480 pixels is not
  wider than 16:9, so the crop keeps its full width of 853 pixels.
\<close>

theorem crop_even_counterexample:
  "crop_w (crop_of 16 9 853 480) = 853 \<and> \<not> is_even_int (crop_w (crop_of 16 9 853 480))"
proof -
  have p: "(0::nat) < 16" "(0::nat) < 9" "(0::nat) < 853" "(0::nat) < 480" by simp_all
  have w: "crop_w (crop_of 16 9 853 480) = 853" using crop_of_eq [OF p] by simp
  have "\<not> is_even_int 853" using is_even_of_nat [of 853] by simp
  then show ?thesis by (simp add: w)
qed

text \<open>
  C2, amended. For a frame of positive width and height and a supported target ratio,
  the crop entry carries the expressions below, and the box they give lies within the
  frame: width and height are not negative and not above those of the frame. The side
  that is cut is an even integer; the side that is kept is the side of the frame, so both
  are even when the frame's sides are.
\<close>

theorem crop_within_frame:
  assumes "0 < iw" "0 < ih" "(rw, rh) \<in> set supported_ratios"
  shows "push_crop (e\<lparr>aspectRatio := Some (dec rw @ '':'' @ dec rh)\<rparr>) [] =
           [''crop='' @ fprint (cropW_expr (of_nat rw) (of_nat rh)) @ '':'' @
            fprint (cropH_expr (of_nat rw) (of_nat rh)) @ '':'' @
            fprint cropX_expr @ '':'' @ fprint cropY_expr] \<and>
         crop_w (crop_of (of_nat rw) (of_nat rh) iw ih) \<le> of_nat iw \<and>
         crop_h (crop_of (of_nat rw) (of_nat rh) iw ih) \<le> of_nat ih \<and>
         0 \<le> crop_w (crop_of (of_nat rw) (of_nat rh) iw ih) \<and>
         0 \<le> crop_h (crop_of (of_nat rw) (of_nat rh) iw ih) \<and>
         ((of_nat rw / of_nat rh :: rat) < of_nat iw / of_nat ih \<longrightarrow>
            is_even_int (crop_w (crop_of (of_nat rw) (of_nat rh) iw ih)) \<and>
            crop_h (crop_of (of_nat rw) (of_nat rh) iw ih) = of_nat ih) \<and>
         (\<not> (of_nat rw / of_nat rh :: rat) < of_nat iw / of_nat ih \<longrightarrow>
            crop_w (crop_of (of_nat rw) (of_nat rh) iw ih) = of_nat iw \<and>
            is_even_int (crop_h (crop_of (of_nat rw) (of_nat rh) iw ih))) \<and>
         (even iw \<and> even ih \<longrightarrow>
            is_even_int (crop_w (crop_of (of_nat rw) (of_nat rh) iw ih)) \<and>
            is_even_int (crop_h (crop_of (of_nat rw) (of_nat rh) iw ih)))"
proof -
  have r: "0 < rw" "0 < rh" using assms(3) by (auto simp: supported_ratios_def)
  note e = crop_of_eq [OF r assms(1,2)]
  note b = crop_bounds [OF r assms(1,2)]
  have t: "push_crop (e\<lparr>aspectRatio := Some (dec rw @ '':'' @ dec rh)\<rparr>) [] =
           [''crop='' @ fprint (cropW_expr (of_nat rw) (of_nat rh)) @ '':'' @
            fprint (cropH_expr (of_nat rw) (of_nat rh)) @ '':'' @
            fprint cropX_expr @ '':'' @ fprint cropY_expr]"
    using push_crop_ratio [where e = e and rw = rw and rh = rh and fs = "[]"] by simp
  have c: "(of_nat rw / of_nat rh :: rat) < of_nat iw / of_nat ih \<longrightarrow>
            is_even_int (crop_w (crop_of (of_nat rw) (of_nat rh) iw ih)) \<and>
            crop_h (crop_of (of_nat rw) (of_nat rh) iw ih) = of_nat ih"
    by (simp add: e is_even_round_even)
  have d: "\<not> (of_nat rw / of_nat rh :: rat) < of_nat iw / of_nat ih \<longrightarrow>
            crop_w (crop_of (of_nat rw) (of_nat rh) iw ih) = of_nat iw \<and>
            is_even_int (crop_h (crop_of (of_nat rw) (of_nat rh) iw ih))"
    by (simp add: e is_even_round_even)
  have f: "even iw \<and> even ih \<longrightarrow>
            is_even_int (crop_w (crop_of (of_nat rw) (of_nat rh) iw ih)) \<and>
            is_even_int (crop_h (crop_of (of_nat rw) (of_nat rh) iw ih))"
    by (simp add: e is_even_round_even is_even_of_nat)
  show ?thesis using t b c d f by blast
qed

theorem crop_within_frame_witness:
  "crop_w (crop_of 9 16 1920 1080) \<le> 1920 \<and> crop_h (crop_of 9 16 1920 1080) \<le> 1080 \<and>
   is_even_int (crop_w (crop_of 9 16 1920 1080)) \<and>
   is_even_int (crop_h (crop_of 9 16 1920 1080))"
proof -
  have p: "(0::nat) < 1920" "(0::nat) < 1080" "(9, 16) \<in> set supported_ratios"
    by (simp_all add: supported_ratios_def)
  show ?thesis using crop_within_frame [OF p, where e = no_edits] by auto
qed

section \<open>Overlay defaults\<close>

text \<open>
  C10. The default positions are used only for a coordinate that is missing: without
  \<open>x\<close> the entry centres the text, without \<open>y\<close> it puts it at 85% of the height, and an
  \<open>x\<close> or \<open>y\<close> of 0 gives \<^verbatim>\<open>w*0\<close> or \<^verbatim>\<open>h*0\<close>. A font size that is missing or 0 becomes
  36, and a missing colour becomes \<^verbatim>\<open>0xFFFFFF\<close>.
\<close>

theorem overlay_defaults:
  "(o_x t = None \<longrightarrow> overlay_x t = ''(w-text_w)/2'') \<and>
   (o_x t = Some v \<longrightarrow> overlay_x t = ''w*'' @ num_str v) \<and>
   (o_x t = Some 0 \<longrightarrow> overlay_x t = ''w*0'') \<and>
   (o_y t = None \<longrightarrow> overlay_y t = ''h*0.85'') \<and>
   (o_y t = Some v \<longrightarrow> overlay_y t = ''h*'' @ num_str v) \<and>
   (o_y t = Some 0 \<longrightarrow> overlay_y t = ''h*0'') \<and>
   (o_fontSize t = None \<or> o_fontSize t = Some 0 \<longrightarrow>
      overlay_size t = 36 \<and> num_str (overlay_size t) = ''36'') \<and>
   (o_fontSize t = Some n \<and> n \<noteq> 0 \<longrightarrow> overlay_size t = n) \<and>
   (o_color t = None \<longrightarrow> overlay_color t = ''0xFFFFFF'') \<and>
   (o_text t = Some s \<longrightarrow>
      drawtext t =
        Inr (''drawtext=text='' @ [squote] @ escapeText s @ [squote] @
             '':fontsize='' @ num_str (overlay_size t) @ '':fontcolor='' @ overlay_color t @
             '':x='' @ overlay_x t @ '':y='' @ overlay_y t @ overlay_enable t))"
  by (auto simp: overlay_x_def overlay_y_def overlay_size_def overlay_color_def drawtext_def
      Let_def num_str_0 num_str_36)

theorem overlay_defaults_witness:
  "drawtext \<lparr>o_id = None, o_text = Some ''Hi'', o_x = Some 0, o_y = Some 0,
             o_fontSize = Some 0, o_color = None, o_startSec = None, o_endSec = None,
             o_bold = None\<rparr> =
     Inr (''drawtext=text='' @ [squote] @ ''Hi'' @ [squote] @
          '':fontsize=36:fontcolor=0xFFFFFF:x=w*0:y=h*0'')"
  using overlay_defaults [where t = "\<lparr>o_id = None, o_text = Some ''Hi'', o_x = Some 0,
      o_y = Some 0, o_fontSize = Some 0, o_color = None, o_startSec = None, o_endSec = None,
      o_bold = None\<rparr>" and s = "''Hi''" and v = 0 and n = 1]
  by (simp add: escapeText_def overlay_enable_def num_str_36 num_str_0)

section \<open>Colour and speed\<close>

lemma stage_of_eq: "startsWith ''eq='' f \<Longrightarrow> entry_stage f = 2"
  by (auto simp: entry_stage_def startsWith_def dest!: take_hd)

lemma stage_of_setpts: "startsWith ''setpts='' f \<Longrightarrow> entry_stage f = 3"
  by (auto simp: entry_stage_def startsWith_def dest!: take_hd)

lemma eq_parts_empty:
  "eq_parts e = [] \<longleftrightarrow>
   \<not> nonzero (brightness e) \<and> \<not> nonzero (contrast e) \<and> \<not> nonzero (saturation e)"
  by (auto simp: eq_parts_def nonzero_def Let_def split: option.splits)

lemma eq_parts_eq:
  "eq_parts e =
     (if nonzero (brightness e) then [''brightness='' @ num_str (the (brightness e))] else []) @
     (if nonzero (contrast e) then [''contrast='' @ toFixed 4 (1 + the (contrast e))] else []) @
     (if nonzero (saturation e) then [''saturation='' @ toFixed 4 (1 + the (saturation e))] else [])"
  by (auto simp: eq_parts_def nonzero_def Let_def split: option.splits)

lemma no_eq_entry:
  assumes "eq_parts e = []" and "buildFFmpegFilters e = Inr hs"
  shows "\<forall>f\<in>set hs. \<not> startsWith ''eq='' f"
proof
  fix f assume f: "f \<in> set hs"
  have "push_eq e [] = []" using assms(1) by (simp add: push_eq_def)
  then have "entry_stage f \<noteq> 2" using stage_of_built [OF assms(2) f] by auto
  then show "\<not> startsWith ''eq='' f" using stage_of_eq by blast
qed

lemma no_setpts_entry:
  assumes "push_speed e [] = []" and "buildFFmpegFilters e = Inr hs"
  shows "\<forall>f\<in>set hs. \<not> startsWith ''setpts='' f"
proof
  fix f assume f: "f \<in> set hs"
  have "entry_stage f \<noteq> 3" using stage_of_built [OF assms(2) f] assms(1) by auto
  then show "\<not> startsWith ''setpts='' f" using stage_of_setpts by blast
qed

lemma no_af_piece:
  "speed_or_1 ed = 1 \<Longrightarrow>
   \<forall>p\<in>set (filter (\<lambda>p. p \<noteq> []) (command_parts src out c ed gs)). \<not> startsWith ''-af'' p"
  by (simp add: command_parts_def Let_def startsWith_def)

lemma frac_digits_step:
  "0 < k \<Longrightarrow> frac_digits k r =
     (if r = 0 then []
      else digit_char (nat \<lfloor>10 * r\<rfloor>) # frac_digits (k - 1) (10 * r - of_int \<lfloor>10 * r\<rfloor>))"
  by (cases k) simp_all

lemma num_str_tenth: "num_str (1 / 10) = ''0.1''"
  by (simp add: num_str_def Let_def floor_eval dec_eval frac_digits_step)

lemma num_str_3_2: "num_str (3 / 2) = ''1.5''"
  by (simp add: num_str_def Let_def floor_eval dec_eval frac_digits_step)

lemma toFixed_4_half: "toFixed 4 (1 / 2) = ''0.5000''"
proof -
  have a1: "(10 ^ 21 \<le> \<bar>1 / 2::rat\<bar>) = False" by simp
  have a2: "nat \<lfloor>\<bar>1 / 2::rat\<bar> * 10 ^ 4 + 1 / 2\<rfloor> = 5000" by (simp add: floor_eval)
  have a3: "padStart (4 + 1) (CHR ''0'') (dec 5000) = ''05000''" by (simp add: padStart_def dec_eval)
  show ?thesis unfolding toFixed_def Let_def a1 a2 a3 by simp
qed

lemma toFixed_6_two_thirds: "toFixed 6 (2 / 3) = ''0.666667''"
proof -
  have a1: "(10 ^ 21 \<le> \<bar>2 / 3::rat\<bar>) = False" by simp
  have a2: "nat \<lfloor>\<bar>2 / 3::rat\<bar> * 10 ^ 6 + 1 / 2\<rfloor> = 666667" by (simp add: floor_eval)
  have a3: "padStart (6 + 1) (CHR ''0'') (dec 666667) = ''0666667''" by (simp add: padStart_def dec_eval)
  show ?thesis unfolding toFixed_def Let_def a1 a2 a3 by simp
qed

lemma filter_none: "(\<And>f. f \<in> set xs \<Longrightarrow> \<not> P f) \<Longrightarrow> filter P xs = []"
  by (induction xs) auto

lemma filter_eq_entries:
  assumes "list_all has_text (overlays_of e)"
  shows "filter (startsWith ''eq='')
           (push_crop e [] @ push_eq e [] @ push_speed e [] @ map entry_of (overlays_of e)) =
         push_eq e []"
proof -
  have a: "filter (startsWith ''eq='') (push_crop e []) = []"
    using stage_crop stage_of_eq by (intro filter_none) fastforce
  have c: "filter (startsWith ''eq='') (push_speed e []) = []"
    using stage_speed stage_of_eq by (intro filter_none) fastforce
  have d: "filter (startsWith ''eq='') (map entry_of (overlays_of e)) = []"
    using stage_texts [OF assms] stage_of_eq by (intro filter_none) fastforce
  have b: "filter (startsWith ''eq='') (push_eq e []) = push_eq e []"
    by (simp add: push_eq_def Let_def startsWith_def)
  show ?thesis by (simp add: a b c d)
qed

lemma filter_setpts_entries:
  assumes "list_all has_text (overlays_of e)"
  shows "filter (startsWith ''setpts='')
           (push_crop e [] @ push_eq e [] @ push_speed e [] @ map entry_of (overlays_of e)) =
         push_speed e []"
proof -
  have a: "filter (startsWith ''setpts='') (push_crop e []) = []"
    using stage_crop stage_of_setpts by (intro filter_none) fastforce
  have b: "filter (startsWith ''setpts='') (push_eq e []) = []"
    using stage_eq stage_of_setpts by (intro filter_none) fastforce
  have d: "filter (startsWith ''setpts='') (map entry_of (overlays_of e)) = []"
    using stage_texts [OF assms] stage_of_setpts by (intro filter_none) fastforce
  have c: "filter (startsWith ''setpts='') (push_speed e []) = push_speed e []"
    by (simp add: push_speed_def startsWith_def split: option.splits)
  show ?thesis by (simp add: a b c d)
qed

lemma af_pieces:
  "filter (startsWith ''-af'') (filter (\<lambda>p. p \<noteq> []) (command_parts src out c ed fs)) =
     (if speed_or_1 ed = 1 then []
      else [''-af '' @ [dquote] @ ''atempo='' @ num_str (min (max (speed_or_1 ed) (1 / 2)) 2) @
            [dquote]])"
  by (simp add: command_parts_def Let_def startsWith_def)

lemma export_cmd_built:
  "buildFFmpegFilters e = Inr fs \<Longrightarrow>
   export_cmd src out c (Some e) =
     Inr (join '' '' (filter (\<lambda>p. p \<noteq> []) (command_parts src out c (Some e) fs)))"
  by (simp add: export_cmd_def)

text \<open>
  C7. In the chain that \<open>buildFFmpegFilters\<close> returns there is no colour entry when
  brightness, contrast and saturation are all missing or 0. Otherwise there is exactly
  one, made of exactly the fields that are not zero, in the order brightness, contrast,
  saturation: the brightness as it is, contrast and saturation as \<open>1 + delta\<close> printed by
  \<open>toFixed 4\<close>, which has four digits after the point and denotes \<open>1 + delta\<close> to within
  half a unit of the fourth digit.
\<close>

theorem color_filter:
  "(list_all has_text (overlays_of e) \<longrightarrow>
      (\<exists>fs. buildFFmpegFilters e = Inr fs \<and>
         filter (startsWith ''eq='') fs =
           (if \<not> nonzero (brightness e) \<and> \<not> nonzero (contrast e) \<and> \<not> nonzero (saturation e)
            then []
            else [''eq='' @ join '':''
                   ((if nonzero (brightness e)
                     then [''brightness='' @ num_str (the (brightness e))] else []) @
                    (if nonzero (contrast e)
                     then [''contrast='' @ toFixed 4 (1 + the (contrast e))] else []) @
                    (if nonzero (saturation e)
                     then [''saturation='' @ toFixed 4 (1 + the (saturation e))] else []))]))) \<and>
   (\<bar>1 + d\<bar> < 10 ^ 21 \<longrightarrow>
      fraction_digits (toFixed 4 (1 + d)) = 4 \<and>
      \<bar>decimal_value (toFixed 4 (1 + d)) - (1 + d)\<bar> \<le> 1 / 20000)"
proof -
  have p: "push_eq e [] =
           (if \<not> nonzero (brightness e) \<and> \<not> nonzero (contrast e) \<and> \<not> nonzero (saturation e)
            then []
            else [''eq='' @ join '':''
                   ((if nonzero (brightness e)
                     then [''brightness='' @ num_str (the (brightness e))] else []) @
                    (if nonzero (contrast e)
                     then [''contrast='' @ toFixed 4 (1 + the (contrast e))] else []) @
                    (if nonzero (saturation e)
                     then [''saturation='' @ toFixed 4 (1 + the (saturation e))] else []))])"
    using eq_parts_empty [of e] eq_parts_eq [of e] by (auto simp: push_eq_def Let_def)
  have a: "list_all has_text (overlays_of e) \<longrightarrow>
      (\<exists>fs. buildFFmpegFilters e = Inr fs \<and> filter (startsWith ''eq='') fs = push_eq e [])"
    using filter_eq_entries [of e] by (simp add: buildFFmpegFilters_eq)
  have c: "\<bar>1 + d\<bar> < 10 ^ 21 \<longrightarrow>
      fraction_digits (toFixed 4 (1 + d)) = 4 \<and>
      \<bar>decimal_value (toFixed 4 (1 + d)) - (1 + d)\<bar> \<le> 1 / 20000"
    using toFixed_precision [of "1 + d" 4] by simp
  show ?thesis using a c unfolding p by blast
qed

theorem color_filter_witness:
  "buildFFmpegFilters (no_edits\<lparr>brightness := Some (1 / 10), contrast := Some (- (1 / 2))\<rparr>) =
     Inr [''eq=brightness=0.1:contrast=0.5000''] \<and>
   buildFFmpegFilters (no_edits\<lparr>brightness := Some 0, contrast := Some 0, saturation := Some 0\<rparr>) =
     Inr []"
proof -
  have o: "overlays_of (no_edits\<lparr>brightness := Some (1 / 10), contrast := Some (- (1 / 2))\<rparr>) = []"
    "overlays_of (no_edits\<lparr>brightness := Some 0, contrast := Some 0, saturation := Some 0\<rparr>) = []"
    by (simp_all add: overlays_of_def no_edits_def)
  have b: "buildFFmpegFilters (no_edits\<lparr>brightness := Some (1 / 10), contrast := Some (- (1 / 2))\<rparr>) =
     Inr [''eq=brightness=0.1:contrast=0.5000'']"
    by (simp add: buildFFmpegFilters_def Let_def no_edits_def push_crop_def push_eq_def
        eq_parts_def push_speed_def num_str_tenth toFixed_4_half)
  have z: "buildFFmpegFilters (no_edits\<lparr>brightness := Some 0, contrast := Some 0, saturation := Some 0\<rparr>) =
     Inr []"
    by (simp add: buildFFmpegFilters_def Let_def no_edits_def push_crop_def push_eq_def
        eq_parts_def push_speed_def)
  show ?thesis
    using color_filter [where e = "no_edits\<lparr>brightness := Some (1 / 10), contrast := Some (- (1 / 2))\<rparr>"
        and d = 0] o b z
    by simp
qed

text \<open>
  C4. In the chain that \<open>buildFFmpegFilters\<close> returns and in the command made of it there
  is no speed entry without a speed or with speed 1. For every other speed (0 counts as
  no speed) the chain has exactly one \<^verbatim>\<open>setpts\<close> entry, with \<open>1 / speed\<close> printed to six
  digits after the point, and the command has exactly one \<^verbatim>\<open>-af\<close> piece, with the tempo
  \<open>min (max speed 0.5) 2\<close>. For speed 3 these are \<^verbatim>\<open>0.333333\<close> and \<^verbatim>\<open>2\<close>.
\<close>

theorem speed_filters:
  "(list_all has_text (overlays_of e) \<longrightarrow>
      (\<exists>fs. buildFFmpegFilters e = Inr fs \<and>
         export_cmd src out c (Some e) =
           Inr (join '' '' (filter (\<lambda>p. p \<noteq> []) (command_parts src out c (Some e) fs))) \<and>
         (speed e = None \<or> speed e = Some 1 \<longrightarrow>
            filter (startsWith ''setpts='') fs = [] \<and>
            filter (startsWith ''-af'')
              (filter (\<lambda>p. p \<noteq> []) (command_parts src out c (Some e) fs)) = []) \<and>
         (speed e = Some s \<and> s \<noteq> 0 \<and> s \<noteq> 1 \<longrightarrow>
            filter (startsWith ''setpts='') fs = [''setpts='' @ toFixed 6 (1 / s) @ ''*PTS''] \<and>
            filter (startsWith ''-af'')
              (filter (\<lambda>p. p \<noteq> []) (command_parts src out c (Some e) fs)) =
              [''-af '' @ [dquote] @ ''atempo='' @ num_str (min (max s (1 / 2)) 2) @ [dquote]]) \<and>
         (speed e = Some 3 \<longrightarrow>
            filter (startsWith ''setpts='') fs = [''setpts=0.333333*PTS''] \<and>
            filter (startsWith ''-af'')
              (filter (\<lambda>p. p \<noteq> []) (command_parts src out c (Some e) fs)) =
              [''-af '' @ [dquote] @ ''atempo=2'' @ [dquote]]))) \<and>
   1 / 2 \<le> min (max s (1 / 2)) 2 \<and> min (max s (1 / 2)) 2 \<le> 2 \<and>
   (1 / 2 \<le> s \<and> s \<le> 2 \<longrightarrow> min (max s (1 / 2)) 2 = s) \<and>
   (\<bar>1 / s\<bar> < 10 ^ 21 \<longrightarrow>
      fraction_digits (toFixed 6 (1 / s)) = 6 \<and>
      \<bar>decimal_value (toFixed 6 (1 / s)) - 1 / s\<bar> \<le> 1 / 2000000)"
proof -
  let ?fs = "push_crop e [] @ push_eq e [] @ push_speed e [] @ map entry_of (overlays_of e)"
  let ?af = "filter (startsWith ''-af'')
              (filter (\<lambda>p. p \<noteq> []) (command_parts src out c (Some e) ?fs))"
  have a: "speed e = None \<or> speed e = Some 1 \<longrightarrow> push_speed e [] = [] \<and> ?af = []"
    by (auto simp: push_speed_def af_pieces speed_or_1_def simp del: filter_filter)
  have b: "speed e = Some s \<and> s \<noteq> 0 \<and> s \<noteq> 1 \<longrightarrow>
      push_speed e [] = [''setpts='' @ toFixed 6 (1 / s) @ ''*PTS''] \<and>
      ?af = [''-af '' @ [dquote] @ ''atempo='' @ num_str (min (max s (1 / 2)) 2) @ [dquote]]"
    by (auto simp: push_speed_def af_pieces speed_or_1_def simp del: filter_filter)
  have c: "speed e = Some 3 \<longrightarrow>
      push_speed e [] = [''setpts=0.333333*PTS''] \<and>
      ?af = [''-af '' @ [dquote] @ ''atempo=2'' @ [dquote]]"
    by (simp add: push_speed_def af_pieces speed_or_1_def toFixed_6_third num_str_2
        del: filter_filter)
  have m: "list_all has_text (overlays_of e) \<longrightarrow>
      (\<exists>fs. buildFFmpegFilters e = Inr fs \<and>
         export_cmd src out c (Some e) =
           Inr (join '' '' (filter (\<lambda>p. p \<noteq> []) (command_parts src out c (Some e) fs))) \<and>
         (speed e = None \<or> speed e = Some 1 \<longrightarrow>
            filter (startsWith ''setpts='') fs = [] \<and>
            filter (startsWith ''-af'')
              (filter (\<lambda>p. p \<noteq> []) (command_parts src out c (Some e) fs)) = []) \<and>
         (speed e = Some s \<and> s \<noteq> 0 \<and> s \<noteq> 1 \<longrightarrow>
            filter (startsWith ''setpts='') fs = [''setpts='' @ toFixed 6 (1 / s) @ ''*PTS''] \<and>
            filter (startsWith ''-af'')
              (filter (\<lambda>p. p \<noteq> []) (command_parts src out c (Some e) fs)) =
              [''-af '' @ [dquote] @ ''atempo='' @ num_str (min (max s (1 / 2)) 2) @ [dquote]]) \<and>
         (speed e = Some 3 \<longrightarrow>
            filter (startsWith ''setpts='') fs = [''setpts=0.333333*PTS''] \<and>
            filter (startsWith ''-af'')
              (filter (\<lambda>p. p \<noteq> []) (command_parts src out c (Some e) fs)) =
              [''-af '' @ [dquote] @ ''atempo=2'' @ [dquote]]))"
  proof
    assume t: "list_all has_text (overlays_of e)"
    have bf: "buildFFmpegFilters e = Inr ?fs" using t by (simp add: buildFFmpegFilters_eq)
    have sf: "filter (startsWith ''setpts='') ?fs = push_speed e []"
      using filter_setpts_entries [OF t] .
    show "\<exists>fs. buildFFmpegFilters e = Inr fs \<and>
         export_cmd src out c (Some e) =
           Inr (join '' '' (filter (\<lambda>p. p \<noteq> []) (command_parts src out c (Some e) fs))) \<and>
         (speed e = None \<or> speed e = Some 1 \<longrightarrow>
            filter (startsWith ''setpts='') fs = [] \<and>
            filter (startsWith ''-af'')
              (filter (\<lambda>p. p \<noteq> []) (command_parts src out c (Some e) fs)) = []) \<and>
         (speed e = Some s \<and> s \<noteq> 0 \<and> s \<noteq> 1 \<longrightarrow>
            filter (startsWith ''setpts='') fs = [''setpts='' @ toFixed 6 (1 / s) @ ''*PTS''] \<and>
            filter (startsWith ''-af'')
              (filter (\<lambda>p. p \<noteq> []) (command_parts src out c (Some e) fs)) =
              [''-af '' @ [dquote] @ ''atempo='' @ num_str (min (max s (1 / 2)) 2) @ [dquote]]) \<and>
         (speed e = Some 3 \<longrightarrow>
            filter (startsWith ''setpts='') fs = [''setpts=0.333333*PTS''] \<and>
            filter (startsWith ''-af'')
              (filter (\<lambda>p. p \<noteq> []) (command_parts src out c (Some e) fs)) =
              [''-af '' @ [dquote] @ ''atempo=2'' @ [dquote]])"
      apply (rule exI [of _ ?fs])
      using bf export_cmd_built [OF bf, of src out c] a b c unfolding sf by blast
  qed
  have k: "1 / 2 \<le> min (max s (1 / 2)) 2 \<and> min (max s (1 / 2)) 2 \<le> 2 \<and>
   (1 / 2 \<le> s \<and> s \<le> 2 \<longrightarrow> min (max s (1 / 2)) 2 = s)"
    by auto
  have q: "\<bar>1 / s\<bar> < 10 ^ 21 \<longrightarrow>
      fraction_digits (toFixed 6 (1 / s)) = 6 \<and>
      \<bar>decimal_value (toFixed 6 (1 / s)) - 1 / s\<bar> \<le> 1 / 2000000"
    using toFixed_precision [of "1 / s" 6] by simp
  show ?thesis using m k q by blast
qed

theorem speed_filters_witness:
  "buildFFmpegFilters (no_edits\<lparr>speed := Some 3\<rparr>) = Inr [''setpts=0.333333*PTS''] \<and>
   export_cmd ''in.mp4'' ''out.mp4'' \<lparr>startTime = 45, endTime = 90\<rparr>
     (Some (no_edits\<lparr>speed := Some 3\<rparr>)) =
     Inr (''ffmpeg -y -ss 00:00:45.000 -i '' @ [dquote] @ ''in.mp4'' @ [dquote] @
          '' -t 00:00:45.000 -vf '' @ [dquote] @ ''setpts=0.333333*PTS'' @ [dquote] @
          '' -af '' @ [dquote] @ ''atempo=2'' @ [dquote] @
          '' -c:v libx264 -preset fast -crf 22 -c:a aac -b:a 128k -movflags +faststart '' @
          [dquote] @ ''out.mp4'' @ [dquote]) \<and>
   buildFFmpegFilters (no_edits\<lparr>speed := Some 1\<rparr>) = Inr []"
proof -
  have o: "list_all has_text (overlays_of (no_edits\<lparr>speed := Some 3\<rparr>))"
    by (simp add: overlays_of_def no_edits_def)
  have b: "buildFFmpegFilters (no_edits\<lparr>speed := Some 3\<rparr>) = Inr [''setpts=0.333333*PTS'']"
    by (simp add: buildFFmpegFilters_def Let_def no_edits_def push_crop_def push_eq_def
        eq_parts_def push_speed_def toFixed_6_third)
  have z: "buildFFmpegFilters (no_edits\<lparr>speed := Some 1\<rparr>) = Inr []"
    by (simp add: buildFFmpegFilters_def Let_def no_edits_def push_crop_def push_eq_def
        eq_parts_def push_speed_def)
  have s: "speed_or_1 (Some (no_edits\<lparr>speed := Some 3\<rparr>)) = 3"
    by (simp add: speed_or_1_def)
  have c: "export_cmd ''in.mp4'' ''out.mp4'' \<lparr>startTime = 45, endTime = 90\<rparr>
     (Some (no_edits\<lparr>speed := Some 3\<rparr>)) =
     Inr (''ffmpeg -y -ss 00:00:45.000 -i '' @ [dquote] @ ''in.mp4'' @ [dquote] @
          '' -t 00:00:45.000 -vf '' @ [dquote] @ ''setpts=0.333333*PTS'' @ [dquote] @
          '' -af '' @ [dquote] @ ''atempo=2'' @ [dquote] @
          '' -c:v libx264 -preset fast -crf 22 -c:a aac -b:a 128k -movflags +faststart '' @
          [dquote] @ ''out.mp4'' @ [dquote])"
    by (simp add: export_cmd_def b command_parts_def Let_def s secondsToFFmpeg_45 num_str_2)
  show ?thesis
    using speed_filters [where e = "no_edits\<lparr>speed := Some 3\<rparr>" and s = 3
        and src = "''in.mp4''" and out = "''out.mp4''" and c = "\<lparr>startTime = 45, endTime = 90\<rparr>"]
      o b c z
    by simp
qed

section \<open>The end-to-end scenario\<close>

lemma scenario_crop:
  "push_crop scenario_edits [] =
     [''crop='' @ fprint (cropW_expr 9 16) @ '':'' @ fprint (cropH_expr 9 16) @ '':'' @
      fprint cropX_expr @ '':'' @ fprint cropY_expr]"
proof -
  have d: "dec 9 @ '':'' @ dec 16 = ''9:16''" by (simp add: dec_eval)
  have "crop_filter ''9:16'' =
     ''crop='' @ fprint (cropW_expr 9 16) @ '':'' @ fprint (cropH_expr 9 16) @ '':'' @
      fprint cropX_expr @ '':'' @ fprint cropY_expr"
    using crop_filter_ratio [of 9 16] unfolding d by simp
  then show ?thesis by (simp add: push_crop_def scenario_edits_def)
qed

lemma scenario_eq: "push_eq scenario_edits [] = []"
  by (simp add: push_eq_def eq_parts_def scenario_edits_def no_edits_def)

lemma scenario_speed: "push_speed scenario_edits [] = [''setpts=0.666667*PTS'']"
  by (simp add: push_speed_def scenario_edits_def toFixed_6_two_thirds)

lemma num_str_1: "num_str 1 = ''1''"
  using num_str_of_nat [of 1] by (simp add: dec_eval)

lemma num_str_3: "num_str 3 = ''3''"
  by (simp add: num_str_numeral dec_eval)

lemma scenario_text:
  "drawtext scenario_overlay =
     Inr (''drawtext=text='' @ [squote] @ ''Hi'' @ [bslash] @ '': there'' @ [squote] @
      '':fontsize=36:fontcolor=0xFFFFFF:x=(w-text_w)/2:y=h*0.85:enable='' @ [squote] @
      ''between(t,1,3)'' @ [squote])"
  by (simp add: drawtext_def Let_def scenario_overlay_def escapeText_def overlay_size_def
      overlay_color_def overlay_x_def overlay_y_def overlay_enable_def num_str_36 num_str_1
      num_str_3)

lemma scenario_built: "buildFFmpegFilters scenario_edits = Inr scenario_filters"
proof -
  have t: "has_text scenario_overlay" by (simp add: has_text_def scenario_overlay_def)
  have e: "entry_of scenario_overlay = scenario_filters ! 2"
    by (simp add: entry_of_def scenario_text scenario_filters_def)
  have o: "overlays_of scenario_edits = [scenario_overlay]"
    by (simp add: overlays_of_def scenario_edits_def)
  show ?thesis
    using t by (simp add: buildFFmpegFilters_eq o scenario_crop scenario_eq scenario_speed e
        scenario_filters_def)
qed

lemma scenario_stages: "map entry_stage scenario_filters = [1, 3, 4]"
  by (simp add: scenario_filters_def entry_stage_def startsWith_def)

theorem filter_order_witness:
  "buildFFmpegFilters scenario_edits = Inr scenario_filters \<and>
   map entry_stage scenario_filters = [1, 3, 4] \<and>
   sorted (map entry_stage scenario_filters) \<and>
   filter (\<lambda>f. entry_stage f = 4) scenario_filters = [entry_of scenario_overlay] \<and>
   command_parts ''in.mp4'' ''out.mp4'' \<lparr>startTime = 45, endTime = 90\<rparr> (Some scenario_edits)
     scenario_filters ! 5 = ''-af '' @ [dquote] @ ''atempo=1.5'' @ [dquote]"
proof -
  have o: "overlays_of scenario_edits = [scenario_overlay]"
    by (simp add: overlays_of_def scenario_edits_def)
  have s: "speed_or_1 (Some scenario_edits) = 3 / 2"
    by (simp add: speed_or_1_def scenario_edits_def)
  show ?thesis
    using filter_order [OF scenario_built, where src = "''in.mp4''" and out = "''out.mp4''"
        and c = "\<lparr>startTime = 45, endTime = 90\<rparr>" and ed = "Some scenario_edits"]
    by (simp add: scenario_built scenario_stages o s num_str_3_2)
qed

section \<open>The handler\<close>

lemma export_cmd_eq:
  "export_cmd src out c ed =
     (if list_all has_text (overlays_of (case ed of None \<Rightarrow> no_edits | Some e \<Rightarrow> e))
      then Inr (join '' '' (filter (\<lambda>p. p \<noteq> [])
             (command_parts src out c ed
                (push_crop (case ed of None \<Rightarrow> no_edits | Some e \<Rightarrow> e) [] @
                 push_eq (case ed of None \<Rightarrow> no_edits | Some e \<Rightarrow> e) [] @
                 push_speed (case ed of None \<Rightarrow> no_edits | Some e \<Rightarrow> e) [] @
                 map entry_of (overlays_of (case ed of None \<Rightarrow> no_edits | Some e \<Rightarrow> e))))))
      else Inl TypeError)"
  by (simp add: export_cmd_def buildFFmpegFilters_eq)

lemma export_clip_missing:
  "sourceFile req = None \<or> sourceFile req = Some [] \<or> clip req = None \<Longrightarrow>
   export_clip E req = \<lparr>spawned = [], reply = Status400 ''Missing params''\<rparr>"
  by (auto simp: export_clip_def split: option.splits)

lemma export_clip_not_found:
  "sourceFile req = Some src \<Longrightarrow> src \<noteq> [] \<Longrightarrow> clip req = Some c \<Longrightarrow>
   \<not> existsSync E (resolved_source E src) \<Longrightarrow>
   export_clip E req =
     \<lparr>spawned = [],
      reply = Status422 ''Source file not found. Please download the video first.''
                (''Expected at: '' @ resolved_source E src)\<rparr>"
  by (simp add: export_clip_def resolved_source_def Let_def)

lemma export_clip_throws:
  "sourceFile req = Some src \<Longrightarrow> src \<noteq> [] \<Longrightarrow> clip req = Some c \<Longrightarrow>
   existsSync E (resolved_source E src) \<Longrightarrow>
   \<not> list_all has_text (overlays_of (edits_or_empty req)) \<Longrightarrow>
   export_clip E req = \<lparr>spawned = [], reply = Status500 ''Export failed'' (Thrown TypeError)\<rparr>"
  by (simp add: export_clip_def resolved_source_def Let_def export_cmd_eq edits_or_empty_def)

lemma export_clip_runs:
  "sourceFile req = Some src \<Longrightarrow> src \<noteq> [] \<Longrightarrow> clip req = Some c \<Longrightarrow>
   existsSync E (resolved_source E src) \<Longrightarrow>
   list_all has_text (overlays_of (edits_or_empty req)) \<Longrightarrow>
   \<exists>cmd. export_cmd (resolved_source E src)
            (path_join E (EXPORT_DIR E) (''clip_'' @ dec (now E) @ ''.mp4'')) c (edits req) = Inr cmd \<and>
         spawned (export_clip E req) = [cmd] \<and>
         reply (export_clip E req) =
           (case execAsync E cmd of
              Some msg \<Rightarrow> Status500 ''Export failed'' (ExecError msg)
            | None \<Rightarrow>
                Status200 (''clip_'' @ dec (now E) @ ''.mp4'')
                  (''/exports/'' @ ''clip_'' @ dec (now E) @ ''.mp4'')
                  (path_join E (EXPORT_DIR E) (''clip_'' @ dec (now E) @ ''.mp4'')))"
  by (auto simp: export_clip_def resolved_source_def Let_def export_cmd_eq edits_or_empty_def
      split: option.splits)

lemma bad_edits_invalid: "invalid_edit_spec bad_edits"
  by (simp add: invalid_edit_spec_def bad_edits_def no_edits_def outside_def)

lemma bad_request_texts: "list_all has_text (overlays_of (edits_or_empty bad_request))"
  by (simp add: edits_or_empty_def bad_request_def bad_edits_def overlays_of_def has_text_def)

text \<open>
  C9, as stated, fails: the handler checks nothing of the edits. A request whose edits
  have an out-of-range brightness, the aspect ratio \<^verbatim>\<open>wide\<close> and an overlay with empty
  text is compiled, the engine is started, and the reply is a success.
\<close>

theorem invalid_spec_counterexample:
  "invalid_edit_spec bad_edits \<and>
   length (spawned (export_clip demo_env bad_request)) = 1 \<and>
   reply (export_clip demo_env bad_request) =
     Status200 ''clip_0.mp4'' ''/exports/clip_0.mp4'' ''/srv/exports/clip_0.mp4''"
proof -
  have s: "sourceFile bad_request = Some ''a.mp4''" "''a.mp4'' \<noteq> []"
    "clip bad_request = Some \<lparr>startTime = 0, endTime = 1\<rparr>"
    "existsSync demo_env (resolved_source demo_env ''a.mp4'')"
    by (simp_all add: bad_request_def demo_env_def)
  have d: "dec 0 = ''0''" by (simp add: dec_eval)
  show ?thesis
    using export_clip_runs [OF s bad_request_texts] bad_edits_invalid
    by (auto simp: demo_env_def d)
qed

text \<open>
  C9, amended. For a request of the declared types, an out-of-range numeric field, a
  malformed aspect ratio or an empty overlay text does not make the request fail. With
  such edits, when the source file and
  the clip are in the request, the source file exists and every overlay has a text
  string, the command is built and handed to the engine, and the reply is what the run
  of the engine gives: the success, or status 500 with the engine's message.
\<close>

theorem no_validation:
  "invalid_edit_spec (edits_or_empty req) \<and>
   sourceFile req = Some src \<and> src \<noteq> [] \<and> clip req = Some c \<and>
   existsSync E (resolved_source E src) \<and>
   list_all has_text (overlays_of (edits_or_empty req)) \<longrightarrow>
     (\<exists>cmd. export_cmd (resolved_source E src)
              (path_join E (EXPORT_DIR E) (''clip_'' @ dec (now E) @ ''.mp4'')) c (edits req) =
              Inr cmd \<and>
            spawned (export_clip E req) = [cmd] \<and>
            reply (export_clip E req) =
              (case execAsync E cmd of
                 Some msg \<Rightarrow> Status500 ''Export failed'' (ExecError msg)
               | None \<Rightarrow>
                   Status200 (''clip_'' @ dec (now E) @ ''.mp4'')
                     (''/exports/'' @ ''clip_'' @ dec (now E) @ ''.mp4'')
                     (path_join E (EXPORT_DIR E) (''clip_'' @ dec (now E) @ ''.mp4''))))"
  using export_clip_runs [of req src c E] by blast

theorem no_validation_witness:
  "invalid_edit_spec (edits_or_empty bad_request) \<and>
   length (spawned (export_clip demo_env bad_request)) = 1 \<and>
   reply (export_clip demo_env bad_request) =
     Status200 ''clip_0.mp4'' ''/exports/clip_0.mp4'' ''/srv/exports/clip_0.mp4''"
proof -
  have s: "sourceFile bad_request = Some ''a.mp4''" "''a.mp4'' \<noteq> []"
    "clip bad_request = Some \<lparr>startTime = 0, endTime = 1\<rparr>"
    "existsSync demo_env (resolved_source demo_env ''a.mp4'')"
    by (simp_all add: bad_request_def demo_env_def)
  have i: "invalid_edit_spec (edits_or_empty bad_request)"
    using bad_edits_invalid by (simp add: edits_or_empty_def bad_request_def)
  have d: "dec 0 = ''0''" by (simp add: dec_eval)
  show ?thesis
    using no_validation [where req = bad_request and E = demo_env and src = "''a.mp4''"
        and c = "\<lparr>startTime = 0, endTime = 1\<rparr>"] s i bad_request_texts
    by (auto simp: demo_env_def d)
qed

section \<open>The command line and the shell\<close>

lemma inert_simps [simp]:
  "inert []" "inert (c # s) = (\<not> shell_active c \<and> inert s)" "inert (a @ b) = (inert a \<and> inert b)"
  by (simp_all add: inert_def)

lemma inert_digits: "list_all is_digit s \<Longrightarrow> inert s"
  by (induction s) (auto simp: is_digit_def shell_active_def)

lemma inert_digit_char: "\<not> shell_active (digit_char d)"
  using is_digit_digit_char [of d] by (auto simp: is_digit_def shell_active_def)

lemma inert_dec: "inert (dec n)"
  by (simp add: inert_digits dec_digits)

lemma inert_frac_digits: "inert (frac_digits k r)"
  by (induction k arbitrary: r) (simp_all add: inert_digit_char)

lemma inert_num_str: "inert (num_str v)"
  by (simp add: num_str_def Let_def inert_dec inert_frac_digits shell_active_def)

lemma inert_take_drop: "inert s \<Longrightarrow> inert (take k s) \<and> inert (drop k s)"
  by (auto simp: inert_def list_all_iff dest: in_set_takeD in_set_dropD)

lemma inert_toFixed: "inert (toFixed f v)"
proof -
  have "inert (padStart (f + 1) (CHR ''0'') (dec (nat \<lfloor>\<bar>v\<bar> * 10 ^ f + 1 / 2\<rfloor>)))"
    using fixed_digits_all [of f "nat \<lfloor>\<bar>v\<bar> * 10 ^ f + 1 / 2\<rfloor>"]
    by (simp add: inert_digits fixed_digits_def)
  then show ?thesis
    using inert_take_drop by (simp add: toFixed_def Let_def inert_num_str shell_active_def)
qed

lemma inert_template_num: "inert (template_num x)"
  by (cases x rule: template_num.cases) (simp_all add: inert_num_str shell_active_def)

lemma inert_crop_filter: "inert (crop_filter a)"
  by (simp add: crop_filter_def Let_def cropW_text_def cropH_text_def inert_template_num
      shell_active_def)

lemma inert_join: "inert sep \<Longrightarrow> list_all inert xs \<Longrightarrow> inert (join sep xs)"
  by (induction sep xs rule: join.induct) simp_all

lemma inert_escape_char: "inert (escape_char c) = (\<not> shell_active c)"
  by (simp add: escape_char_def shell_active_def)

lemma inert_escapeText: "inert (escapeText s) = inert s"
  by (induction s) (simp_all add: escapeText_Nil escapeText_Cons inert_escape_char)

lemma set_escapeText: "shell_active ch \<Longrightarrow> ch \<in> set (escapeText s) \<longleftrightarrow> ch \<in> set s"
  by (induction s) (auto simp: escapeText_Nil escapeText_Cons escape_char_def shell_active_def)

lemma inert_replaceFirst: "inert r \<Longrightarrow> inert s \<Longrightarrow> inert (replaceFirst c r s)"
  by (induction s) simp_all

lemma inert_overlay_color: "inert (color_of t) \<Longrightarrow> inert (overlay_color t)"
  by (auto simp: overlay_color_def color_of_def shell_active_def intro!: inert_replaceFirst
      split: option.splits)

lemma inert_entry:
  "inert (text_of t) \<Longrightarrow> inert (color_of t) \<Longrightarrow> inert (entry_of t)"
  by (auto simp: entry_of_def drawtext_def Let_def text_of_def inert_escapeText
      inert_overlay_color inert_num_str overlay_x_def overlay_y_def overlay_enable_def
      shell_active_def split: option.splits)

lemma inert_push_crop: "list_all inert (push_crop e [])"
  by (simp add: push_crop_def inert_crop_filter split: option.splits)

lemma inert_eq_parts: "list_all inert (eq_parts e)"
  by (simp add: eq_parts_eq inert_num_str inert_toFixed shell_active_def)

lemma inert_push_eq: "list_all inert (push_eq e [])"
  by (simp add: push_eq_def Let_def inert_join inert_eq_parts shell_active_def)

lemma inert_push_speed: "list_all inert (push_speed e [])"
  by (simp add: push_speed_def inert_toFixed shell_active_def split: option.splits)

lemma inert_chain:
  assumes "buildFFmpegFilters e = Inr fs"
    and "\<forall>t\<in>set (overlays_of e). inert (text_of t) \<and> inert (color_of t)"
  shows "inert (join '','' fs)"
proof -
  have fs: "fs = push_crop e [] @ push_eq e [] @ push_speed e [] @ map entry_of (overlays_of e)"
    using assms(1) by (auto simp: buildFFmpegFilters_eq split: if_splits)
  have "list_all inert (map entry_of (overlays_of e))"
    using assms(2) by (auto simp: list_all_iff inert_entry)
  then have "list_all inert fs"
    by (simp add: fs inert_push_crop inert_push_eq inert_push_speed)
  then show ?thesis by (simp add: inert_join shell_active_def)
qed

lemma set_join: "x \<in> set xs \<Longrightarrow> set x \<subseteq> set (join sep xs)"
  by (induction sep xs rule: join.induct) auto

lemma active_reaches_chain:
  assumes "buildFFmpegFilters e = Inr fs" and "t \<in> set (overlays_of e)"
    and "o_text t = Some s" and "ch \<in> set s" and "shell_active ch"
  shows "ch \<in> set (join '','' fs)"
proof -
  have fs: "fs = push_crop e [] @ push_eq e [] @ push_speed e [] @ map entry_of (overlays_of e)"
    using assms(1) by (auto simp: buildFFmpegFilters_eq split: if_splits)
  have "ch \<in> set (escapeText s)" using assms(4,5) by (simp add: set_escapeText)
  then have "ch \<in> set (entry_of t)" using assms(3) by (simp add: entry_of_def drawtext_def Let_def)
  moreover have "entry_of t \<in> set fs" using assms(2) by (simp add: fs)
  ultimately show ?thesis using set_join by blast
qed

lemma toFixed_3_0: "toFixed 3 0 = ''0.000''"
proof -
  have a1: "(10 ^ 21 \<le> \<bar>0::rat\<bar>) = False" by simp
  have a2: "nat \<lfloor>\<bar>0::rat\<bar> * 10 ^ 3 + 1 / 2\<rfloor> = 0" by (simp add: floor_eval)
  have a3: "padStart (3 + 1) (CHR ''0'') (dec 0) = ''0000''"
    by (simp add: padStart_def dec_eval numeral_3_eq_3)
  show ?thesis unfolding toFixed_def Let_def a1 a2 a3 by simp
qed

lemma toFixed_3_1: "toFixed 3 1 = ''1.000''"
proof -
  have a1: "(10 ^ 21 \<le> \<bar>1::rat\<bar>) = False" by simp
  have a2: "nat \<lfloor>\<bar>1::rat\<bar> * 10 ^ 3 + 1 / 2\<rfloor> = 1000" by (simp add: floor_eval)
  have a3: "padStart (3 + 1) (CHR ''0'') (dec 1000) = ''1000''" by (simp add: padStart_def dec_eval)
  show ?thesis unfolding toFixed_def Let_def a1 a2 a3 by simp
qed

lemma secondsToFFmpeg_0: "secondsToFFmpeg 0 = ''00:00:00.000''"
  by (simp add: secondsToFFmpeg_def Let_def js_rem_def js_trunc_def toFixed_3_0 num_str_0
      padStart_def)

lemma secondsToFFmpeg_1: "secondsToFFmpeg 1 = ''00:00:01.000''"
proof -
  have r: "js_rem 1 3600 = 1" "js_rem 1 60 = 1"
    by (simp_all add: js_rem_def js_trunc_def floor_eval)
  show ?thesis
    by (simp add: secondsToFFmpeg_def Let_def r floor_eval toFixed_3_1 num_str_0 padStart_def)
qed

lemma inj_built: "buildFFmpegFilters inj_edits = Inr [inj_entry]"
proof -
  have d: "drawtext inj_overlay = Inr inj_entry"
    by (simp add: drawtext_def Let_def inj_overlay_def inj_entry_def escapeText_def
        overlay_size_def overlay_color_def overlay_x_def overlay_y_def overlay_enable_def
        num_str_36)
  show ?thesis
    by (simp add: buildFFmpegFilters_def Let_def inj_edits_def no_edits_def push_crop_def
        push_eq_def eq_parts_def push_speed_def d)
qed

lemma inj_cmd:
  "export_cmd ''/srv/temp_videos/a.mp4'' ''/srv/exports/clip_0.mp4''
     \<lparr>startTime = 0, endTime = 1\<rparr> (Some inj_edits) = Inr inj_command"
proof -
  have s: "speed_or_1 (Some inj_edits) = 1"
    by (simp add: speed_or_1_def inj_edits_def no_edits_def)
  show ?thesis
    by (simp add: export_cmd_def inj_built command_parts_def Let_def s secondsToFFmpeg_0
        secondsToFFmpeg_1 inj_command_def)
qed

text \<open>
  C8, as stated, fails: the command is one string for a shell, and a double quote of
  the overlay text goes into it as it is. Here the shell ends the filter chain at the
  quote of the text and finds \<^verbatim>\<open>echo injected\<close> as a command of its own.
\<close>

theorem shell_injection_counterexample:
  "spawned (export_clip demo_env inj_request) = [inj_command] \<and>
   buildFFmpegFilters inj_edits = Inr [inj_entry] \<and>
   \<not> inert (join '','' [inj_entry])"
proof -
  have d: "dec 0 = ''0''" by (simp add: dec_eval)
  have "spawned (export_clip demo_env inj_request) = [inj_command]"
    by (simp add: export_clip_def demo_env_def inj_request_def Let_def d inj_cmd)
  moreover have "\<not> inert (join '','' [inj_entry])"
    by (simp add: inj_entry_def shell_active_def)
  ultimately show ?thesis using inj_built by simp
qed

lemma spawned_at_most_one: "length (spawned (export_clip E req)) \<le> 1"
  by (simp add: export_clip_def Let_def split: option.splits sum.splits prod.splits)

lemma export_cmd_line:
  "export_cmd src out c ed = Inr cmd \<Longrightarrow>
   \<exists>gs. buildFFmpegFilters (case ed of None \<Rightarrow> no_edits | Some e \<Rightarrow> e) = Inr gs \<and>
        cmd = join '' '' (filter (\<lambda>p. p \<noteq> []) (command_parts src out c ed gs))"
  by (auto simp: export_cmd_def split: sum.splits)

lemma stage_of_drawtext: "startsWith ''drawtext='' f \<Longrightarrow> entry_stage f = 4"
  by (auto simp: entry_stage_def startsWith_def dest!: take_hd)

lemma entry_of_text:
  "has_text t \<Longrightarrow>
   entry_of t =
     ''drawtext=text='' @ [squote] @ escapeText (text_of t) @ [squote] @
     '':fontsize='' @ num_str (overlay_size t) @ '':fontcolor='' @ overlay_color t @
     '':x='' @ overlay_x t @ '':y='' @ overlay_y t @ overlay_enable t"
  by (auto simp: has_text_def entry_of_def drawtext_def Let_def text_of_def)

lemma filter_drawtext_entries:
  assumes "list_all has_text (overlays_of e)"
  shows "filter (startsWith ''drawtext='')
           (push_crop e [] @ push_eq e [] @ push_speed e [] @ map entry_of (overlays_of e)) =
         map (\<lambda>t. ''drawtext=text='' @ [squote] @ escapeText (text_of t) @ [squote] @
                  '':fontsize='' @ num_str (overlay_size t) @ '':fontcolor='' @ overlay_color t @
                  '':x='' @ overlay_x t @ '':y='' @ overlay_y t @ overlay_enable t)
             (overlays_of e)"
proof -
  have a: "filter (startsWith ''drawtext='') (push_crop e []) = []"
    using stage_crop stage_of_drawtext by (intro filter_none) fastforce
  have b: "filter (startsWith ''drawtext='') (push_eq e []) = []"
    using stage_eq stage_of_drawtext by (intro filter_none) fastforce
  have c: "filter (startsWith ''drawtext='') (push_speed e []) = []"
    using stage_speed stage_of_drawtext by (intro filter_none) fastforce
  have p: "\<And>t. has_text t \<Longrightarrow> startsWith ''drawtext='' (entry_of t)"
    by (simp add: entry_of_text startsWith_def)
  have d: "list_all has_text ts \<Longrightarrow>
        filter (startsWith ''drawtext='') (map entry_of ts) =
        map (\<lambda>t. ''drawtext=text='' @ [squote] @ escapeText (text_of t) @ [squote] @
                  '':fontsize='' @ num_str (overlay_size t) @ '':fontcolor='' @ overlay_color t @
                  '':x='' @ overlay_x t @ '':y='' @ overlay_y t @ overlay_enable t) ts" for ts
  proof (induction ts)
    case Nil
    show ?case by simp
  next
    case (Cons u us)
    have u: "has_text u" and us: "list_all has_text us" using Cons.prems by simp_all
    show ?case using p [OF u] entry_of_text [OF u] Cons.IH [OF us] by simp
  qed
  show ?thesis using d [OF assms] by (simp add: a b c)
qed

lemma has_text_of: "has_text t \<Longrightarrow> o_text t = Some (text_of t)"
  by (auto simp: has_text_def text_of_def)

lemma escape_char_other:
  "ch \<noteq> bslash \<and> ch \<noteq> squote \<and> ch \<noteq> colon \<Longrightarrow> escape_char ch = [ch]"
  by (simp add: escape_char_def)

lemma shell_active_other:
  "shell_active ch \<Longrightarrow> ch \<noteq> bslash \<and> ch \<noteq> squote \<and> ch \<noteq> colon"
  by (auto simp: shell_active_def)

text \<open>
  C8, amended. For a request of the declared types, the command for the engine is one
  string, its pieces joined by spaces and the filter chain between double quotes after
  \<^verbatim>\<open>-vf\<close>, and at most one such string is handed to the shell for a request. The
  \<^verbatim>\<open>drawtext\<close> entries of the chain are those of the overlays, in their order, each with
  the escaped text of its overlay between single quotes. The escaper puts a backslash
  before backslash, single quote and colon and leaves every other character of the text
  as it is, also the double quote, the dollar sign and the backquote. The chain has none
  of these three characters when the texts and colours of the overlays have none, and
  every such character of an overlay text is in the chain.
\<close>

theorem shell_line:
  "(list_all has_text (overlays_of e) \<longrightarrow>
      (\<exists>fs. buildFFmpegFilters e = Inr fs \<and>
         export_cmd src out c (Some e) =
           Inr (join '' '' (filter (\<lambda>p. p \<noteq> []) (command_parts src out c (Some e) fs))) \<and>
         command_parts src out c (Some e) fs ! 4 =
           (if fs = [] then [] else ''-vf '' @ [dquote] @ join '','' fs @ [dquote]) \<and>
         filter (startsWith ''drawtext='') fs =
           map (\<lambda>t. ''drawtext=text='' @ [squote] @ escapeText (text_of t) @ [squote] @
                    '':fontsize='' @ num_str (overlay_size t) @ '':fontcolor='' @
                    overlay_color t @ '':x='' @ overlay_x t @ '':y='' @ overlay_y t @
                    overlay_enable t)
             (overlays_of e) \<and>
         ((\<forall>t\<in>set (overlays_of e). inert (text_of t) \<and> inert (color_of t)) \<longrightarrow>
            inert (join '','' fs)) \<and>
         (\<forall>t\<in>set (overlays_of e). \<forall>a\<in>set (text_of t).
            shell_active a \<longrightarrow> a \<in> set (join '','' fs)))) \<and>
   length (spawned (export_clip E req)) \<le> 1 \<and>
   escapeText s = concat (map escape_char s) \<and>
   (ch \<noteq> bslash \<and> ch \<noteq> squote \<and> ch \<noteq> colon \<longrightarrow> escape_char ch = [ch]) \<and>
   (shell_active ch \<longrightarrow> ch \<noteq> bslash \<and> ch \<noteq> squote \<and> ch \<noteq> colon)"
proof -
  have m: "list_all has_text (overlays_of e) \<longrightarrow>
      (\<exists>fs. buildFFmpegFilters e = Inr fs \<and>
         export_cmd src out c (Some e) =
           Inr (join '' '' (filter (\<lambda>p. p \<noteq> []) (command_parts src out c (Some e) fs))) \<and>
         command_parts src out c (Some e) fs ! 4 =
           (if fs = [] then [] else ''-vf '' @ [dquote] @ join '','' fs @ [dquote]) \<and>
         filter (startsWith ''drawtext='') fs =
           map (\<lambda>t. ''drawtext=text='' @ [squote] @ escapeText (text_of t) @ [squote] @
                    '':fontsize='' @ num_str (overlay_size t) @ '':fontcolor='' @
                    overlay_color t @ '':x='' @ overlay_x t @ '':y='' @ overlay_y t @
                    overlay_enable t)
             (overlays_of e) \<and>
         ((\<forall>t\<in>set (overlays_of e). inert (text_of t) \<and> inert (color_of t)) \<longrightarrow>
            inert (join '','' fs)) \<and>
         (\<forall>t\<in>set (overlays_of e). \<forall>a\<in>set (text_of t).
            shell_active a \<longrightarrow> a \<in> set (join '','' fs)))"
  proof
    assume t: "list_all has_text (overlays_of e)"
    let ?fs = "push_crop e [] @ push_eq e [] @ push_speed e [] @ map entry_of (overlays_of e)"
    have bf: "buildFFmpegFilters e = Inr ?fs" using t by (simp add: buildFFmpegFilters_eq)
    have p4: "command_parts src out c (Some e) ?fs ! 4 =
           (if ?fs = [] then [] else ''-vf '' @ [dquote] @ join '','' ?fs @ [dquote])"
      by (simp add: command_parts_def Let_def)
    have i: "(\<forall>t\<in>set (overlays_of e). inert (text_of t) \<and> inert (color_of t)) \<longrightarrow>
            inert (join '','' ?fs)"
      using inert_chain [OF bf] by blast
    have r: "\<forall>t\<in>set (overlays_of e). \<forall>a\<in>set (text_of t).
            shell_active a \<longrightarrow> a \<in> set (join '','' ?fs)"
    proof (intro ballI impI)
      fix u a assume u: "u \<in> set (overlays_of e)" and a: "a \<in> set (text_of u)" "shell_active a"
      have "has_text u" using t u by (simp add: list_all_iff)
      then have "o_text u = Some (text_of u)" by (rule has_text_of)
      then show "a \<in> set (join '','' ?fs)" using active_reaches_chain [OF bf u _ a] by blast
    qed
    show "\<exists>fs. buildFFmpegFilters e = Inr fs \<and>
         export_cmd src out c (Some e) =
           Inr (join '' '' (filter (\<lambda>p. p \<noteq> []) (command_parts src out c (Some e) fs))) \<and>
         command_parts src out c (Some e) fs ! 4 =
           (if fs = [] then [] else ''-vf '' @ [dquote] @ join '','' fs @ [dquote]) \<and>
         filter (startsWith ''drawtext='') fs =
           map (\<lambda>t. ''drawtext=text='' @ [squote] @ escapeText (text_of t) @ [squote] @
                    '':fontsize='' @ num_str (overlay_size t) @ '':fontcolor='' @
                    overlay_color t @ '':x='' @ overlay_x t @ '':y='' @ overlay_y t @
                    overlay_enable t)
             (overlays_of e) \<and>
         ((\<forall>t\<in>set (overlays_of e). inert (text_of t) \<and> inert (color_of t)) \<longrightarrow>
            inert (join '','' fs)) \<and>
         (\<forall>t\<in>set (overlays_of e). \<forall>a\<in>set (text_of t).
            shell_active a \<longrightarrow> a \<in> set (join '','' fs))"
      apply (rule exI [of _ ?fs])
      using bf export_cmd_built [OF bf, of src out c] p4 i r filter_drawtext_entries [OF t]
      by blast
  qed
  show ?thesis
    using m spawned_at_most_one [of E req] escapeText_concat [of s] escape_char_other [of ch]
      shell_active_other [of ch]
    by blast
qed

theorem shell_line_witness:
  "buildFFmpegFilters scenario_edits = Inr scenario_filters \<and>
   inert (join '','' scenario_filters)"
proof -
  have o: "overlays_of scenario_edits = [scenario_overlay]"
    by (simp add: overlays_of_def scenario_edits_def)
  have t: "list_all has_text (overlays_of scenario_edits)"
    by (simp add: o has_text_def scenario_overlay_def)
  have i: "\<forall>t\<in>set (overlays_of scenario_edits). inert (text_of t) \<and> inert (color_of t)"
    by (simp add: o text_of_def color_of_def scenario_overlay_def shell_active_def)
  show ?thesis
    using shell_line [where e = scenario_edits] scenario_built t i
    by fastforce
qed

end
